theory Spec2Isabelle
  imports Complex_Main
begin

section \<open>JavaScript numbers\<close>

text \<open>
  A JavaScript number is an IEEE 754 binary64 value. The embedding keeps the finite values
  as exact rationals and rounds the result of every inexact operation to the nearest
  binary64 value, ties to even (\<open>fl\<close>, 53 significant bits). Subnormal numbers are not
  modelled: every quantity of the colour arithmetic is far from them. Overflow is modelled
  where a value typed by the user can cause it, in the distance of the inverse search
  (\<open>finite64\<close>); the other quantities are far from it.
  Integers (pixel bytes, parsed field values, loop counters) are \<open>int\<close> or \<open>nat\<close>.
  The places where the source can produce NaN or an infinity are written out one by one.
\<close>

function bitLength :: "int \<Rightarrow> int" where
  \<comment> \<open>the number of binary digits of a positive integer\<close>
  "bitLength n = (if n \<le> 0 then 0 else 1 + bitLength (n div 2))"
  by pat_completeness auto
termination
  by (relation "measure nat") auto

declare bitLength.simps [simp del]

definition ilog2 :: "rat \<Rightarrow> int" where
  \<comment> \<open>the binary exponent of a positive number: \<open>2 ^ ilog2 v \<le> v < 2 ^ (ilog2 v + 1)\<close>\<close>
  "ilog2 v = (if 1 \<le> v then bitLength \<lfloor>v\<rfloor> - 1 else - bitLength (\<lceil>1 / v\<rceil> - 1))"

definition roundHalfEven :: "rat \<Rightarrow> int" where
  "roundHalfEven m = (let f = \<lfloor>m\<rfloor>; d = m - of_int f in
     if d < 1 / 2 then f else if 1 / 2 < d then f + 1 else if even f then f else f + 1)"

definition fl :: "rat \<Rightarrow> rat" where
  \<comment> \<open>the binary64 value nearest to \<open>v\<close>: \<open>v\<close> is scaled to a 53-bit integer, rounded, scaled back\<close>
  "fl v = (if v = 0 then 0 else
     let e = ilog2 \<bar>v\<bar> - 52
     in of_int (roundHalfEven (v / (2 powi e))) * (2 powi e))"

definition finite64 :: "rat \<Rightarrow> rat option" where
  \<comment> \<open>the binary64 result of an operation whose exact result is \<open>v\<close>: the rounded value, or
      an infinity (\<open>None\<close>) when that value is beyond the largest binary64 number, whose
      binary exponent is 1023\<close>
  "finite64 v = (let u = fl v in if ilog2 \<bar>u\<bar> < 1024 then Some u else None)"

definition Math_round :: "rat \<Rightarrow> int" where
  \<comment> \<open>\<open>Math.round\<close>: the nearest integer, a tie going up\<close>
  "Math_round v = \<lfloor>v + 1 / 2\<rfloor>"

definition Math_floor :: "rat \<Rightarrow> int" where
  "Math_floor v = \<lfloor>v\<rfloor>"

section \<open>Colour math\<close>

subsection \<open>RGB to HEX\<close>

definition hexChar :: "nat \<Rightarrow> char" where
  "hexChar d = ''0123456789abcdef'' ! (d mod 16)"

fun natToString16 :: "nat \<Rightarrow> string" where
  "natToString16 n = (if n < 16 then [hexChar n] else natToString16 (n div 16) @ [hexChar (n mod 16)])"

declare natToString16.simps [simp del]

definition toString16 :: "int \<Rightarrow> string" where
  \<comment> \<open>\<open>x.toString(16)\<close> of an integer: lowercase digits, a minus sign in front of a negative one\<close>
  "toString16 v = (if v < 0 then CHR ''-'' # natToString16 (nat (- v)) else natToString16 (nat v))"

definition padStart2 :: "string \<Rightarrow> string" where
  \<comment> \<open>\<open>s.padStart(2, "0")\<close>\<close>
  "padStart2 s = replicate (2 - length s) (CHR ''0'') @ s"

definition rgbToHex :: "int \<Rightarrow> int \<Rightarrow> int \<Rightarrow> string" where
  "rgbToHex r g b = CHR ''#'' # concat (map (\<lambda>v. padStart2 (toString16 v)) [r, g, b])"

subsection \<open>HEX to RGB\<close>

definition hexDigitValue :: "char \<Rightarrow> nat option" where
  "hexDigitValue c = map_of
     [(CHR ''0'', 0), (CHR ''1'', 1), (CHR ''2'', 2), (CHR ''3'', 3), (CHR ''4'', 4),
      (CHR ''5'', 5), (CHR ''6'', 6), (CHR ''7'', 7), (CHR ''8'', 8), (CHR ''9'', 9),
      (CHR ''a'', 10), (CHR ''b'', 11), (CHR ''c'', 12), (CHR ''d'', 13), (CHR ''e'', 14),
      (CHR ''f'', 15), (CHR ''A'', 10), (CHR ''B'', 11), (CHR ''C'', 12), (CHR ''D'', 13),
      (CHR ''E'', 14), (CHR ''F'', 15)] c"

definition isHexDigit :: "char \<Rightarrow> bool" where
  \<comment> \<open>the character class \<open>[a-f\d]\<close> (or \<open>[0-9A-F]\<close>) under the flag \<open>i\<close>\<close>
  "isHexDigit c = (hexDigitValue c \<noteq> None)"

definition parseInt16 :: "string \<Rightarrow> int option" where
  \<comment> \<open>\<open>parseInt(s, 16)\<close> on a string that starts with its digits: the longest prefix of hex
      digits is read, and the result is NaN (\<open>None\<close>) when that prefix is empty\<close>
  "parseInt16 s = (let ds = takeWhile isHexDigit s in
     if ds = [] then None
     else Some (foldl (\<lambda>acc c. 16 * acc + (case hexDigitValue c of Some d \<Rightarrow> int d | None \<Rightarrow> 0)) 0 ds))"

definition hexToRgb_exec :: "string \<Rightarrow> (string \<times> string \<times> string) option" where
  \<comment> \<open>the match of \<open>/^#?([a-f\d]{2})([a-f\d]{2})([a-f\d]{2})$/i\<close>: its three groups\<close>
  "hexToRgb_exec s =
     (let body = (case s of [] \<Rightarrow> s | c # cs \<Rightarrow> if c = CHR ''#'' then cs else s) in
      if length body = 6 \<and> list_all isHexDigit body
      then Some (take 2 body, take 2 (drop 2 body), take 2 (drop 4 body))
      else None)"

definition hexToRgb :: "string \<Rightarrow> (int \<times> int \<times> int) option" where
  \<comment> \<open>\<open>None\<close> is the source's \<open>null\<close>. The groups of a match are hex digits, so none of the
      three \<open>parseInt\<close> calls gives NaN and the last case is never reached.\<close>
  "hexToRgb s = (case hexToRgb_exec s of
       None \<Rightarrow> None
     | Some (g1, g2, g3) \<Rightarrow>
         (case (parseInt16 g1, parseInt16 g2, parseInt16 g3) of
            (Some r, Some g, Some b) \<Rightarrow> Some (r, g, b)
          | _ \<Rightarrow> None))"

subsection \<open>RGB to HSL\<close>

definition fdiv0 :: "rat \<Rightarrow> rat \<Rightarrow> rat option" where
  \<comment> \<open>a division whose divisor can be zero: \<open>None\<close> stands for the infinity or NaN of the source\<close>
  "fdiv0 a b = (if b = 0 then None else Some (fl (a / b)))"

definition rgbToHsl :: "int \<Rightarrow> int \<Rightarrow> int \<Rightarrow> rat \<times> rat option \<times> rat" where
  \<comment> \<open>\<open>mx\<close> is one of the three channels, so the \<open>switch\<close> always finds its case\<close>
  "rgbToHsl r0 g0 b0 =
     (let r = fl (of_int r0 / 255); g = fl (of_int g0 / 255); b = fl (of_int b0 / 255);
          mx = max r (max g b); mn = min r (min g b);
          l = fl (fl (mx + mn) / 2)
      in if mx = mn then (0, Some 0, l)
         else
           let d = fl (mx - mn);
               s = (if 1 / 2 < l then fdiv0 d (fl (fl (2 - mx) - mn)) else fdiv0 d (fl (mx + mn)));
               h = (if mx = r then fl (fl (fl (g - b) / d) + (if g < b then 6 else 0))
                    else if mx = g then fl (fl (fl (b - r) / d) + 2)
                    else fl (fl (fl (r - g) / d) + 4))
           in (fl (h / 6), s, l))"

subsection \<open>HSL to RGB\<close>

definition hue2rgb :: "rat \<Rightarrow> rat \<Rightarrow> rat \<Rightarrow> rat" where
  "hue2rgb p q t0 =
     (let t1 = (if t0 < 0 then fl (t0 + 1) else t0);
          t = (if 1 < t1 then fl (t1 - 1) else t1)
      in if t < fl (1 / 6) then fl (p + fl (fl (fl (q - p) * 6) * t))
         else if t < 1 / 2 then q
         else if t < fl (2 / 3) then fl (p + fl (fl (fl (q - p) * fl (fl (2 / 3) - t)) * 6))
         else p)"

definition hslToRgb :: "rat \<Rightarrow> rat \<Rightarrow> rat \<Rightarrow> int \<times> int \<times> int" where
  "hslToRgb h s l =
     (let (r, g, b) =
        (if s = 0 then (l, l, l)
         else
           let q = (if l < 1 / 2 then fl (l * fl (1 + s)) else fl (fl (l + s) - fl (l * s)));
               p = fl (fl (2 * l) - q)
           in (hue2rgb p q (fl (h + fl (1 / 3))), hue2rgb p q h, hue2rgb p q (fl (h - fl (1 / 3)))))
      in (Math_round (fl (r * 255)), Math_round (fl (g * 255)), Math_round (fl (b * 255))))"

section \<open>The component\<close>

text \<open>
  One record holds what the methods read and write: the fields of \<open>this.state\<close> that the
  colour logic uses, the registered callback, the bitmap of the plane canvas, the values of
  the three number inputs and of the hex input, the background of the preview box, and the
  trace of what has been emitted so far.

  \<^item> The loupe position is a rational: a pointer coordinate need not be an integer.
  \<^item> \<open>rgbInputs\<close> holds what \<open>parseInt\<close> returns for the value of each of the three number
    inputs, \<open>None\<close> for NaN. Writing an integer into an input makes it parse to that integer.
    The infinity that \<open>parseInt\<close> returns for a string of several hundred digits is left
    out by the type.
  \<^item> \<open>canvas\<close> is the byte array that \<open>getImageData(0, 0, width, height).data\<close> returns, four
    bytes per pixel in row-major order.
  \<^item> \<open>selectedColor\<close> is the seed attribute after \<open>split(',').map(Number)\<close>, for a seed of
    three integers; \<open>None\<close> when the attribute is absent.
  \<^item> \<open>onColorChangeCallback\<close> tells whether a callback function has been registered.
  \<^item> \<open>ctx_stroke\<close> is the 2D context of the plane canvas, as far as the component uses it to
    draw: what \<open>beginPath(); arc(x, y, size, 0, 2 * Math.PI); lineWidth = 2;
    strokeStyle = "#fff"; stroke()\<close> does to the bitmap of a canvas of the given width and
    height. It is code of the browser, not of the component, so it is a parameter of the
    model; the component obtains the context once, in \<open>cacheElements\<close>.
  The hue bar is only drawn, never read back, so \<open>renderHueBar\<close> leaves this record as it is
  and is left out.
\<close>

record detail =
  det_r :: int
  det_g :: int
  det_b :: int
  det_hex :: string

datatype emission = Callback detail | ColorChange detail | Ready

record component =
  width :: nat
  height :: nat
  selectedColor :: "(int \<times> int \<times> int) option"
  isMouseDown :: bool
  loupe_x :: rat
  loupe_y :: rat
  hue :: int
  draggingHue :: bool
  onColorChangeCallback :: bool
  canvas :: "nat \<Rightarrow> int"
  ctx_stroke :: "rat \<Rightarrow> rat \<Rightarrow> rat \<Rightarrow> nat \<Rightarrow> nat \<Rightarrow> (nat \<Rightarrow> int) \<Rightarrow> nat \<Rightarrow> int"
  rgbInputs :: "int option \<times> int option \<times> int option"
  hexInput :: string
  previewBox :: string
  emitted :: "emission list"

text \<open>
  A pointer event with the rectangle of its target: \<open>e.clientX\<close>, \<open>e.clientY\<close> and the
  \<open>left\<close>, \<open>top\<close> and \<open>width\<close> of \<open>getBoundingClientRect()\<close>.
\<close>

record pointer =
  clientX :: rat
  clientY :: rat
  rect_left :: rat
  rect_top :: rat
  rect_width :: rat

definition constructor ::
  "(rat \<Rightarrow> rat \<Rightarrow> rat \<Rightarrow> nat \<Rightarrow> nat \<Rightarrow> (nat \<Rightarrow> int) \<Rightarrow> nat \<Rightarrow> int)
    \<Rightarrow> nat option \<Rightarrow> nat option \<Rightarrow> (int \<times> int \<times> int) option \<Rightarrow> component" where
  \<comment> \<open>the arguments are the 2D context that the browser will give to the component,
      \<open>parseInt\<close> of the attributes \<open>width\<close> and \<open>height\<close> (\<open>None\<close> for NaN) and the seed;
      \<open>parseInt(...) || 300\<close> replaces NaN and 0 by the default. A negative size, which no
      canvas has, is left out by the type.\<close>
  "constructor ctx w h sel =
     \<lparr> width = (case w of None \<Rightarrow> 300 | Some n \<Rightarrow> if n = 0 then 300 else n),
       height = (case h of None \<Rightarrow> 150 | Some n \<Rightarrow> if n = 0 then 150 else n),
       selectedColor = sel,
       isMouseDown = False,
       loupe_x = 150,
       loupe_y = 75,
       hue = 0,
       draggingHue = False,
       onColorChangeCallback = False,
       canvas = (\<lambda>i. 0),
       ctx_stroke = ctx,
       rgbInputs = (None, None, None),
       hexInput = [],
       previewBox = [],
       emitted = [] \<rparr>"

definition set_onColorChange :: "component \<Rightarrow> component" where
  "set_onColorChange st = st\<lparr>onColorChangeCallback := True\<rparr>"

subsection \<open>Rendering and sampling the plane\<close>

definition toUint8Clamped :: "int \<Rightarrow> int" where
  \<comment> \<open>a store into the \<open>Uint8ClampedArray\<close> of an \<open>ImageData\<close>\<close>
  "toUint8Clamped v = max 0 (min 255 v)"

definition planePixel :: "int \<Rightarrow> nat \<Rightarrow> nat \<Rightarrow> nat \<Rightarrow> nat \<Rightarrow> int \<times> int \<times> int" where
  \<comment> \<open>the body of the loops of \<open>renderCanvasWithHue\<close>. With \<open>width = 1\<close> the saturation is
      \<open>0 / 0\<close> and with \<open>height = 1\<close> the lightness is \<open>1 - 0 / 0\<close>: NaN, which \<open>hslToRgb\<close> turns
      into three NaN, stored as 0.\<close>
  "planePixel hu w h x y =
     (if w = 1 \<or> h = 1 then (0, 0, 0)
      else
        let sat = fl (of_nat x / (of_nat w - 1));
            light = fl (1 - fl (of_nat y / (of_nat h - 1)));
            (r, g, b) = hslToRgb (fl (of_int hu / 360)) sat light
        in (toUint8Clamped r, toUint8Clamped g, toUint8Clamped b))"

definition planeImageData :: "int \<Rightarrow> nat \<Rightarrow> nat \<Rightarrow> nat \<Rightarrow> int" where
  \<comment> \<open>the \<open>ImageData\<close> that the two loops of \<open>renderCanvasWithHue\<close> fill\<close>
  "planeImageData hu w h =
     (\<lambda>i.
        let px = i div 4; x = px mod w; y = px div w in
        if w = 0 \<or> h \<le> y then 0
        else
          let (r, g, b) = planePixel hu w h x y in
          if i mod 4 = 0 then r else if i mod 4 = 1 then g else if i mod 4 = 2 then b else 255)"

definition renderCanvasWithHue :: "int \<Rightarrow> component \<Rightarrow> component" where
  \<comment> \<open>\<open>putImageData\<close> replaces the bitmap by the plane; then the ring is stroked around the
      loupe. Its radius is the \<open>size\<close> of the loupe, which the constructor sets to 14 and
      nothing assigns.\<close>
  "renderCanvasWithHue hu st =
     st\<lparr>canvas :=
          ctx_stroke st (loupe_x st) (loupe_y st) 14 (width st) (height st)
            (planeImageData hu (width st) (height st))\<rparr>"

definition getColorAt :: "component \<Rightarrow> rat \<Rightarrow> rat \<Rightarrow> int \<times> int \<times> int" where
  \<comment> \<open>\<open>getImageData\<close> gives transparent black for a pixel outside the canvas\<close>
  "getColorAt st x y =
     (let sx = Math_floor x; sy = Math_floor y in
      if 0 \<le> sx \<and> sx < int (width st) \<and> 0 \<le> sy \<and> sy < int (height st)
      then
        let i = (nat sy * width st + nat sx) * 4
        in (canvas st i, canvas st (i + 1), canvas st (i + 2))
      else (0, 0, 0))"

subsection \<open>Fields, hue and notification\<close>

definition updateColorFields :: "int \<Rightarrow> int \<Rightarrow> int \<Rightarrow> component \<Rightarrow> component" where
  "updateColorFields r g b st =
     st\<lparr>rgbInputs := (Some r, Some g, Some b), hexInput := rgbToHex r g b\<rparr>"

definition syncHueWithRgb :: "int \<Rightarrow> int \<Rightarrow> int \<Rightarrow> component \<Rightarrow> component" where
  "syncHueWithRgb r g b st =
     (let mx = max r (max g b); mn = min r (min g b) in
      if mx - mn < 10 then st
      else
        let (h, s, l) = rgbToHsl r g b
        in st\<lparr>hue := Math_round (fl (h * 360))\<rparr>)"

definition fireColorChange :: "int \<times> int \<times> int \<Rightarrow> component \<Rightarrow> component" where
  "fireColorChange c st =
     (let (r, g, b) = c;
          hex = rgbToHex r g b;
          d = \<lparr>det_r = r, det_g = g, det_b = b, det_hex = hex\<rparr>
      in st\<lparr>emitted := emitted st @ (if onColorChangeCallback st then [Callback d] else [])
                                  @ [ColorChange d],
            previewBox := hex\<rparr>)"

subsection \<open>The inverse search\<close>

text \<open>
  The distance is computed in binary64 from the bytes of a pixel and the three values of
  the target, which can be as large as the user types them: a difference, three squares and
  two sums, each of which can overflow to an infinity (\<open>None\<close>). A square and a sum of
  squares are never negative, so the only infinity of a distance is the positive one.
\<close>

definition sub64 :: "int \<Rightarrow> int \<Rightarrow> rat option" where
  \<comment> \<open>\<open>pr - r\<close>\<close>
  "sub64 a b = finite64 (of_int a - of_int b)"

definition square64 :: "rat option \<Rightarrow> rat option" where
  \<comment> \<open>\<open>dr * dr\<close>: the square of an infinity is the positive infinity\<close>
  "square64 d = (case d of Some v \<Rightarrow> finite64 (v * v) | None \<Rightarrow> None)"

definition add64 :: "rat option \<Rightarrow> rat option \<Rightarrow> rat option" where
  \<comment> \<open>the sum of two numbers that are not negative\<close>
  "add64 a b = (case (a, b) of (Some u, Some v) \<Rightarrow> finite64 (u + v) | _ \<Rightarrow> None)"

fun lessThanBest :: "rat option \<Rightarrow> rat option \<Rightarrow> bool" where
  \<comment> \<open>\<open>dist < bestDist\<close>, where \<open>bestDist\<close> starts as \<open>Infinity\<close>: the positive infinity is above
      every number and not below itself\<close>
  "lessThanBest None best = False"
| "lessThanBest (Some d) None = True"
| "lessThanBest (Some d) (Some e) = (d < e)"

function scanRow ::
  "(nat \<Rightarrow> int) \<Rightarrow> nat \<Rightarrow> int \<Rightarrow> int \<Rightarrow> int \<Rightarrow> nat \<Rightarrow> nat \<Rightarrow> nat \<times> nat \<times> rat option
    \<Rightarrow> nat \<times> nat \<times> rat option" where
  "scanRow data w r g b y x (bestX, bestY, bestDist) =
     (if x < w then
        let i = (y * w + x) * 4;
            pr = data i; pg = data (i + 1); pb = data (i + 2);
            isGray = (pr = pg \<and> pg = pb)
        in if (r = g \<and> g = b) \<and> \<not> isGray
           then scanRow data w r g b y (x + 1) (bestX, bestY, bestDist)
           else
             let dr = sub64 pr r; dg = sub64 pg g; db = sub64 pb b;
                 dst = add64 (add64 (square64 dr) (square64 dg)) (square64 db)
             in if lessThanBest dst bestDist
                then (if dst = Some 0 then (x, y, dst)
                      else scanRow data w r g b y (x + 1) (x, y, dst))
                else scanRow data w r g b y (x + 1) (bestX, bestY, bestDist)
      else (bestX, bestY, bestDist))"
  by pat_completeness auto
termination
  by (relation "measure (\<lambda>(data, w, r, g, b, y, x, best). w - x)") auto

function scanRows ::
  "(nat \<Rightarrow> int) \<Rightarrow> nat \<Rightarrow> nat \<Rightarrow> int \<Rightarrow> int \<Rightarrow> int \<Rightarrow> nat \<Rightarrow> nat \<times> nat \<times> rat option
    \<Rightarrow> nat \<times> nat \<times> rat option" where
  "scanRows data w h r g b y best =
     (if y < h then
        let best' = scanRow data w r g b y 0 best
        in if snd (snd best') = Some 0 then best'
           else scanRows data w h r g b (y + 1) best'
      else best)"
  by pat_completeness auto
termination
  by (relation "measure (\<lambda>(data, w, h, r, g, b, y, best). h - y)") auto

declare scanRow.simps [simp del] scanRows.simps [simp del]

definition syncLoupeToColor :: "int \<Rightarrow> int \<Rightarrow> int \<Rightarrow> component \<Rightarrow> component" where
  "syncLoupeToColor r g b st =
     (let (bestX, bestY, bestDist) = scanRows (canvas st) (width st) (height st) r g b 0 (0, 0, None)
      in renderCanvasWithHue (hue st) (st\<lparr>loupe_x := of_nat bestX, loupe_y := of_nat bestY\<rparr>))"

subsection \<open>Entry points\<close>

definition updateLoupeFromEvent :: "pointer \<Rightarrow> bool \<Rightarrow> component \<Rightarrow> component" where
  "updateLoupeFromEvent e allowHueSync st =
     (let x = max 0 (min (of_nat (width st) - 1) (fl (clientX e - rect_left e)));
          y = max 0 (min (of_nat (height st) - 1) (fl (clientY e - rect_top e)))
      in if x < 0 \<or> y < 0 \<or> of_nat (width st) \<le> x \<or> of_nat (height st) \<le> y then st
         else
           let st1 = renderCanvasWithHue (hue st) (st\<lparr>loupe_x := x, loupe_y := y\<rparr>);
               (r, g, b) = getColorAt st1 x y;
               st2 = updateColorFields r g b st1;
               st3 = (if allowHueSync then syncHueWithRgb r g b st2 else st2)
           in fireColorChange (r, g, b) st3)"

definition onMouseDown :: "pointer \<Rightarrow> component \<Rightarrow> component" where
  "onMouseDown e st = updateLoupeFromEvent e True (st\<lparr>isMouseDown := True\<rparr>)"

definition onMouseMove :: "pointer \<Rightarrow> component \<Rightarrow> component" where
  "onMouseMove e st = (if \<not> isMouseDown st then st else updateLoupeFromEvent e False st)"

definition onMouseUp :: "component \<Rightarrow> component" where
  "onMouseUp st = st\<lparr>isMouseDown := False\<rparr>"

definition updateHueFromEvent :: "pointer \<Rightarrow> component \<Rightarrow> component" where
  \<comment> \<open>\<open>this.hueBar.width\<close> is \<open>this.state.width\<close> (set in \<open>cacheElements\<close>)\<close>
  "updateHueFromEvent e st =
     (let x = max 0 (min (fl (rect_width e - 1)) (fl (clientX e - rect_left e)));
          hu = Math_round (fl (fl (x / of_nat (width st)) * 360));
          st1 = renderCanvasWithHue hu (st\<lparr>hue := hu\<rparr>);
          (r, g, b) = getColorAt st1 (loupe_x st1) (loupe_y st1);
          st2 = updateColorFields r g b st1
      in fireColorChange (r, g, b) st2)"

definition onHueMouseDown :: "pointer \<Rightarrow> component \<Rightarrow> component" where
  "onHueMouseDown e st = updateHueFromEvent e (st\<lparr>draggingHue := True\<rparr>)"

definition onHueMouseMove :: "pointer \<Rightarrow> component \<Rightarrow> component" where
  "onHueMouseMove e st = (if \<not> draggingHue st then st else updateHueFromEvent e st)"

definition onHueMouseUp :: "component \<Rightarrow> component" where
  "onHueMouseUp st = st\<lparr>draggingHue := False\<rparr>"

definition documentMouseUp :: "component \<Rightarrow> component" where
  \<comment> \<open>\<open>attachEventListeners\<close> registers both handlers for \<open>mouseup\<close> on the document, in this
      order, so one release of the button runs both\<close>
  "documentMouseUp st = onHueMouseUp (onMouseUp st)"

definition handleRgbInput :: "component \<Rightarrow> component" where
  "handleRgbInput st =
     (case rgbInputs st of
        (Some r, Some g, Some b) \<Rightarrow>
          let st1 = updateColorFields r g b st;
              st2 = syncHueWithRgb r g b st1;
              st3 = renderCanvasWithHue (hue st2) st2;
              st4 = syncLoupeToColor r g b st3
          in fireColorChange (r, g, b) st4
      | _ \<Rightarrow> st)"

definition handleHexInput_test :: "string \<Rightarrow> bool" where
  \<comment> \<open>\<open>/^#[0-9A-F]{6}$/i.test(hex)\<close>\<close>
  "handleHexInput_test s =
     (case s of [] \<Rightarrow> False | c # cs \<Rightarrow> c = CHR ''#'' \<and> length cs = 6 \<and> list_all isHexDigit cs)"

definition handleHexInput :: "component \<Rightarrow> component" where
  \<comment> \<open>a string that passes the test is matched by \<open>hexToRgb\<close>; were \<open>rgb\<close> null, reading
      \<open>rgb.r\<close> would throw before any change, which is the last case\<close>
  "handleHexInput st =
     (if \<not> handleHexInput_test (hexInput st) then st
      else case hexToRgb (hexInput st) of
        Some (r, g, b) \<Rightarrow>
          let st1 = updateColorFields r g b st;
              st2 = syncHueWithRgb r g b st1;
              st3 = renderCanvasWithHue (hue st2) st2;
              st4 = syncLoupeToColor r g b st3
          in fireColorChange (r, g, b) st4
      | None \<Rightarrow> st)"

definition updateSelectedColor :: "(int \<times> int \<times> int) option \<Rightarrow> component \<Rightarrow> component" where
  "updateSelectedColor rgbString st =
     (case rgbString of
        None \<Rightarrow> st
      | Some (r, g, b) \<Rightarrow>
          let st1 = updateColorFields r g b st;
              st2 = syncHueWithRgb r g b st1;
              st3 = renderCanvasWithHue (hue st2) st2
          in fireColorChange (r, g, b) st3)"

definition initializeDefaultColorFromCanvas :: "component \<Rightarrow> component" where
  "initializeDefaultColorFromCanvas st =
     (let (r, g, b) = getColorAt st (loupe_x st) (loupe_y st);
          st1 = updateColorFields r g b st;
          st2 = syncHueWithRgb r g b st1
      in fireColorChange (r, g, b) st2)"

definition cacheElements :: "component \<Rightarrow> component" where
  \<comment> \<open>\<open>renderMarkup\<close> and \<open>cacheElements\<close>: a fresh canvas, empty inputs and preview box\<close>
  "cacheElements st =
     st\<lparr>canvas := (\<lambda>i. 0), rgbInputs := (None, None, None), hexInput := [], previewBox := []\<rparr>"

definition connectedCallback :: "component \<Rightarrow> component" where
  "connectedCallback st =
     (let st1 = renderCanvasWithHue (hue st) (cacheElements st);
          st2 = (case selectedColor st1 of
                   Some c \<Rightarrow> updateSelectedColor (Some c) st1
                 | None \<Rightarrow> initializeDefaultColorFromCanvas st1)
      in st2\<lparr>emitted := emitted st2 @ [Ready]\<rparr>)"

section \<open>Notions of the specification\<close>

text \<open>
  The definitions of this section are not code of the component. They state, in the words
  of the specification, what the theorems below say about the code.
\<close>

subsection \<open>Well-formed hex strings\<close>

definition hexDigits :: "char set" where
  "hexDigits = set ''0123456789abcdefABCDEF''"

definition validHex6 :: "string \<Rightarrow> bool" where
  \<comment> \<open>an optional leading \<open>#\<close> followed by exactly 6 hex digits, in any letter case\<close>
  "validHex6 s = (\<exists>ds. length ds = 6 \<and> set ds \<subseteq> hexDigits \<and> (s = ds \<or> s = CHR ''#'' # ds))"

definition validHashHex6 :: "string \<Rightarrow> bool" where
  \<comment> \<open>a \<open>#\<close> followed by exactly 6 hex digits, in any letter case\<close>
  "validHashHex6 s = (\<exists>ds. length ds = 6 \<and> set ds \<subseteq> hexDigits \<and> s = CHR ''#'' # ds)"

definition toLowerCase :: "char \<Rightarrow> char" where
  \<comment> \<open>\<open>toLowerCase\<close> on one character of a string of ASCII characters\<close>
  "toLowerCase c =
     (case map_of (zip ''ABCDEFGHIJKLMNOPQRSTUVWXYZ'' ''abcdefghijklmnopqrstuvwxyz'') c of
        Some l \<Rightarrow> l
      | None \<Rightarrow> c)"

definition normalizeHex :: "string \<Rightarrow> string" where
  \<comment> \<open>the lowercase form of a hex string, with a \<open>#\<close> in front\<close>
  "normalizeHex s =
     CHR ''#'' # map toLowerCase (case s of [] \<Rightarrow> [] | c # cs \<Rightarrow> if c = CHR ''#'' then cs else s)"

subsection \<open>Canonical colour, hue rule, notification, bounds\<close>

definition canonical :: "component \<Rightarrow> (int \<times> int \<times> int) option" where
  \<comment> \<open>the canonical colour is the one the three number inputs show\<close>
  "canonical st = (case rgbInputs st of (Some r, Some g, Some b) \<Rightarrow> Some (r, g, b) | _ \<Rightarrow> None)"

fun hueRule :: "int \<Rightarrow> int \<times> int \<times> int \<Rightarrow> int \<Rightarrow> bool" where
  \<comment> \<open>the hue after an operation that started with the hue \<open>before\<close> and ended with the
      canonical colour \<open>(r, g, b)\<close>\<close>
  "hueRule before (r, g, b) after =
     (if 10 \<le> max r (max g b) - min r (min g b)
      then after = Math_round (fl (fst (rgbToHsl r g b) * 360))
      else after = before)"

definition hueFromBar :: "pointer \<Rightarrow> nat \<Rightarrow> int" where
  \<comment> \<open>the hue of a coordinate of the hue bar: \<open>round(x / barWidth * 360)\<close> with the coordinate
      clamped to the rectangle of the bar\<close>
  "hueFromBar e w =
     Math_round (fl (fl (max 0 (min (fl (rect_width e - 1)) (fl (clientX e - rect_left e))) / of_nat w) * 360))"

definition notification :: "bool \<Rightarrow> int \<times> int \<times> int \<Rightarrow> emission list" where
  \<comment> \<open>what one notification of the colour \<open>(r, g, b)\<close> adds to the trace: the event
      \<open>color-change\<close>, after the call of the callback when one is registered\<close>
  "notification cb c =
     (case c of (r, g, b) \<Rightarrow>
        (if cb then [Callback \<lparr>det_r = r, det_g = g, det_b = b, det_hex = rgbToHex r g b\<rparr>] else [])
        @ [ColorChange \<lparr>det_r = r, det_g = g, det_b = b, det_hex = rgbToHex r g b\<rparr>])"

definition notifiedOnce :: "component \<Rightarrow> component \<Rightarrow> emission list \<Rightarrow> bool" where
  \<comment> \<open>from \<open>st\<close> to \<open>st'\<close> exactly one notification was emitted (followed by \<open>rest\<close>), as the
      last step, and it carries the canonical colour of \<open>st'\<close> with its hex string\<close>
  "notifiedOnce st st' rest =
     (\<exists>c pre. canonical st' = Some c
        \<and> hexInput st' = (case c of (r, g, b) \<Rightarrow> rgbToHex r g b)
        \<and> emitted pre = emitted st
        \<and> onColorChangeCallback pre = onColorChangeCallback st
        \<and> st' = (fireColorChange c pre)\<lparr>emitted := emitted (fireColorChange c pre) @ rest\<rparr>
        \<and> emitted st' = emitted st @ notification (onColorChangeCallback st) c @ rest)"

definition positionInBounds :: "component \<Rightarrow> bool" where
  \<comment> \<open>the plane position lies within \<open>[0, W - 1] x [0, H - 1]\<close>\<close>
  "positionInBounds st =
     (0 \<le> loupe_x st \<and> loupe_x st \<le> of_nat (width st) - 1
      \<and> 0 \<le> loupe_y st \<and> loupe_y st \<le> of_nat (height st) - 1)"

subsection \<open>The plane as a grid of pixels\<close>

definition pixelAt :: "(nat \<Rightarrow> int) \<Rightarrow> nat \<Rightarrow> nat \<Rightarrow> nat \<Rightarrow> int \<times> int \<times> int" where
  "pixelAt data w x y =
     (data ((y * w + x) * 4), data ((y * w + x) * 4 + 1), data ((y * w + x) * 4 + 2))"

fun isGrayColor :: "int \<times> int \<times> int \<Rightarrow> bool" where
  "isGrayColor (r, g, b) = (r = g \<and> g = b)"

fun squaredDistance :: "int \<times> int \<times> int \<Rightarrow> int \<times> int \<times> int \<Rightarrow> int" where
  \<comment> \<open>the squared Euclidean distance of two colours\<close>
  "squaredDistance (pr, pg, pb) (r, g, b) =
     (pr - r) * (pr - r) + (pg - g) * (pg - g) + (pb - b) * (pb - b)"

fun dist64 :: "int \<times> int \<times> int \<Rightarrow> int \<times> int \<times> int \<Rightarrow> rat option" where
  \<comment> \<open>the distance of a pixel from the target as the search computes it, in binary64\<close>
  "dist64 (pr, pg, pb) (r, g, b) =
     add64 (add64 (square64 (sub64 pr r)) (square64 (sub64 pg g))) (square64 (sub64 pb b))"

definition searched :: "int \<times> int \<times> int \<Rightarrow> int \<times> int \<times> int \<Rightarrow> bool" where
  \<comment> \<open>the pixels the search looks at: all of them, but only the gray ones for a gray target\<close>
  "searched target p = (isGrayColor target \<longrightarrow> isGrayColor p)"

definition rowMajorBefore :: "nat \<times> nat \<Rightarrow> nat \<times> nat \<Rightarrow> bool" where
  \<comment> \<open>\<open>(x, y)\<close> comes before \<open>(x', y')\<close> from top to bottom, then from left to right\<close>
  "rowMajorBefore p q = (snd p < snd q \<or> (snd p = snd q \<and> fst p < fst q))"

definition scanned :: "nat \<Rightarrow> nat \<Rightarrow> nat \<Rightarrow> nat \<Rightarrow> nat \<Rightarrow> bool" where
  \<comment> \<open>the pixels seen when the loops stand at column \<open>X\<close> of row \<open>Y\<close>\<close>
  "scanned w X Y x y = (x < w \<and> (y < Y \<or> (y = Y \<and> x < X)))"

definition bestSoFar ::
  "(nat \<Rightarrow> int) \<Rightarrow> nat \<Rightarrow> int \<times> int \<times> int \<Rightarrow> nat \<Rightarrow> nat \<Rightarrow> nat \<times> nat \<times> rat option \<Rightarrow> bool" where
  \<comment> \<open>the loop invariant: \<open>best\<close> is the first nearest pixel among the searched pixels seen;
      it is still the initial one when none of them has a finite distance\<close>
  "bestSoFar data w target X Y best =
     (case best of
        (bx, by, None) \<Rightarrow>
          bx = 0 \<and> by = 0
          \<and> (\<forall>x y. scanned w X Y x y \<and> searched target (pixelAt data w x y) \<longrightarrow>
                 dist64 (pixelAt data w x y) target = None)
      | (bx, by, Some d) \<Rightarrow>
          scanned w X Y bx by \<and> searched target (pixelAt data w bx by)
          \<and> dist64 (pixelAt data w bx by) target = Some d
          \<and> (\<forall>x y. scanned w X Y x y \<and> searched target (pixelAt data w x y) \<longrightarrow>
                \<not> lessThanBest (dist64 (pixelAt data w x y) target) (Some d)
                \<and> (rowMajorBefore (x, y) (bx, by) \<longrightarrow>
                     lessThanBest (Some d) (dist64 (pixelAt data w x y) target))))"

subsection \<open>Intermediate states\<close>

definition committed :: "int \<Rightarrow> int \<Rightarrow> int \<Rightarrow> component \<Rightarrow> component" where
  \<comment> \<open>the state that a commit of \<open>(r, g, b)\<close> has reached when it notifies\<close>
  "committed r g b st =
     (let st1 = updateColorFields r g b st;
          st2 = syncHueWithRgb r g b st1;
          st3 = renderCanvasWithHue (hue st2) st2
      in syncLoupeToColor r g b st3)"

definition clampedX :: "pointer \<Rightarrow> component \<Rightarrow> rat" where
  "clampedX e st = max 0 (min (of_nat (width st) - 1) (fl (clientX e - rect_left e)))"

definition clampedY :: "pointer \<Rightarrow> component \<Rightarrow> rat" where
  "clampedY e st = max 0 (min (of_nat (height st) - 1) (fl (clientY e - rect_top e)))"

definition sampled :: "pointer \<Rightarrow> component \<Rightarrow> component" where
  \<comment> \<open>the state in which a pointer event on the plane samples the colour\<close>
  "sampled e st =
     renderCanvasWithHue (hue st) (st\<lparr>loupe_x := clampedX e st, loupe_y := clampedY e st\<rparr>)"

definition hueDragged :: "pointer \<Rightarrow> component \<Rightarrow> component" where
  \<comment> \<open>the state in which a pointer event on the hue bar samples the colour\<close>
  "hueDragged e st =
     renderCanvasWithHue (hueFromBar e (width st)) (st\<lparr>hue := hueFromBar e (width st)\<rparr>)"

definition prepared :: "component \<Rightarrow> component" where
  \<comment> \<open>the state of \<open>connectedCallback\<close> after the first rendering of the plane\<close>
  "prepared st = renderCanvasWithHue (hue st) (cacheElements st)"

section \<open>The ring around the loupe\<close>

text \<open>
  The ring is a circle of radius \<open>size\<close> stroked with a line of width 2: the points whose
  distance from the centre lies between \<open>size - 1\<close> and \<open>size + 1\<close>. A pixel is the unit
  square \<open>[x, x + 1] \<times> [y, y + 1]\<close>. How a context blends the pixels that the edge of the line
  crosses differs from browser to browser, so the stroke is not defined here. The theorems
  that depend on the ring assume of the context only what the geometry of the line gives,
  each theorem naming what it needs: a pixel that the line does not touch keeps its colour
  (\<open>leavesOutside\<close>), a pixel that lies within the line becomes white (\<open>paintsInside\<close>), and a
  gray pixel stays gray, white being gray (\<open>keepsGray\<close>).
\<close>

definition nearestSq :: "rat \<Rightarrow> rat \<Rightarrow> nat \<Rightarrow> nat \<Rightarrow> rat" where
  \<comment> \<open>the squared distance from \<open>(cx, cy)\<close> to the nearest point of the pixel \<open>(x, y)\<close>\<close>
  "nearestSq cx cy x y =
     (let dx = max 0 (max (of_nat x - cx) (cx - (of_nat x + 1)));
          dy = max 0 (max (of_nat y - cy) (cy - (of_nat y + 1)))
      in dx * dx + dy * dy)"

definition farthestSq :: "rat \<Rightarrow> rat \<Rightarrow> nat \<Rightarrow> nat \<Rightarrow> rat" where
  \<comment> \<open>the squared distance from \<open>(cx, cy)\<close> to the farthest point of the pixel \<open>(x, y)\<close>\<close>
  "farthestSq cx cy x y =
     (let dx = max \<bar>cx - of_nat x\<bar> \<bar>cx - (of_nat x + 1)\<bar>;
          dy = max \<bar>cy - of_nat y\<bar> \<bar>cy - (of_nat y + 1)\<bar>
      in dx * dx + dy * dy)"

definition outsideRing :: "rat \<Rightarrow> rat \<Rightarrow> rat \<Rightarrow> nat \<Rightarrow> nat \<Rightarrow> bool" where
  \<comment> \<open>the pixel lies within the inner circle or beyond the outer one\<close>
  "outsideRing cx cy sz x y =
     (farthestSq cx cy x y < (sz - 1) * (sz - 1) \<or> (sz + 1) * (sz + 1) < nearestSq cx cy x y)"

definition insideRing :: "rat \<Rightarrow> rat \<Rightarrow> rat \<Rightarrow> nat \<Rightarrow> nat \<Rightarrow> bool" where
  \<comment> \<open>the pixel lies between the inner circle and the outer one\<close>
  "insideRing cx cy sz x y =
     ((sz - 1) * (sz - 1) \<le> nearestSq cx cy x y \<and> farthestSq cx cy x y \<le> (sz + 1) * (sz + 1))"

definition leavesOutside ::
  "(rat \<Rightarrow> rat \<Rightarrow> rat \<Rightarrow> nat \<Rightarrow> nat \<Rightarrow> (nat \<Rightarrow> int) \<Rightarrow> nat \<Rightarrow> int) \<Rightarrow> bool" where
  "leavesOutside stroke =
     (\<forall>cx cy sz w h data x y. x < w \<and> y < h \<and> outsideRing cx cy sz x y \<longrightarrow>
        pixelAt (stroke cx cy sz w h data) w x y = pixelAt data w x y)"

definition paintsInside ::
  "(rat \<Rightarrow> rat \<Rightarrow> rat \<Rightarrow> nat \<Rightarrow> nat \<Rightarrow> (nat \<Rightarrow> int) \<Rightarrow> nat \<Rightarrow> int) \<Rightarrow> bool" where
  "paintsInside stroke =
     (\<forall>cx cy sz w h data x y. x < w \<and> y < h \<and> insideRing cx cy sz x y \<longrightarrow>
        pixelAt (stroke cx cy sz w h data) w x y = (255, 255, 255))"

definition keepsGray ::
  "(rat \<Rightarrow> rat \<Rightarrow> rat \<Rightarrow> nat \<Rightarrow> nat \<Rightarrow> (nat \<Rightarrow> int) \<Rightarrow> nat \<Rightarrow> int) \<Rightarrow> bool" where
  "keepsGray stroke =
     (\<forall>cx cy sz w h data x y. x < w \<and> y < h \<and> isGrayColor (pixelAt data w x y) \<longrightarrow>
        isGrayColor (pixelAt (stroke cx cy sz w h data) w x y))"

section \<open>Example states\<close>

text \<open>
  The example states need a context. \<open>exampleStroke\<close> is the simplest one that draws the ring:
  it has the three properties above (lemmas \<open>exampleStroke_leavesOutside\<close>,
  \<open>exampleStroke_paintsInside\<close> and \<open>exampleStroke_keepsGray\<close>), and the theorems on the
  example states use nothing else of it.
\<close>

definition exampleStroke :: "rat \<Rightarrow> rat \<Rightarrow> rat \<Rightarrow> nat \<Rightarrow> nat \<Rightarrow> (nat \<Rightarrow> int) \<Rightarrow> nat \<Rightarrow> int" where
  \<comment> \<open>a context that draws without anti-aliasing: it paints white the pixels whose centre
      lies on the line\<close>
  "exampleStroke cx cy sz w h data =
     (\<lambda>i.
        let px = i div 4; x = px mod w; y = px div w;
            dx = of_nat x + 1 / 2 - cx; dy = of_nat y + 1 / 2 - cy;
            d2 = dx * dx + dy * dy
        in if w \<noteq> 0 \<and> y < h \<and> (sz - 1) * (sz - 1) \<le> d2 \<and> d2 \<le> (sz + 1) * (sz + 1)
           then 255 else data i)"

definition exampleGrayPlane :: component where
  \<comment> \<open>a plane of 2 by 1 pixels: a gray pixel and a pixel that is not gray\<close>
  "exampleGrayPlane =
     (constructor exampleStroke (Some 2) (Some 1) None)
       \<lparr>canvas := (\<lambda>i. if i < 8 then [100, 100, 100, 255, 120, 121, 120, 255] ! i else 0)\<rparr>"

definition exampleComponent :: component where
  \<comment> \<open>a component of the default size, before it is connected\<close>
  "exampleComponent = constructor exampleStroke None None None"

definition redComponent :: component where
  \<comment> \<open>a connected component of the default size, seeded with red\<close>
  "redComponent = connectedCallback (constructor exampleStroke None None (Some (255, 0, 0)))"

definition narrowComponent :: component where
  \<comment> \<open>a connected component of 100 by 50 pixels without a seed\<close>
  "narrowComponent = connectedCallback (constructor exampleStroke (Some 100) (Some 50) None)"

definition pointerAt :: "rat \<Rightarrow> rat \<Rightarrow> pointer" where
  \<comment> \<open>a pointer event at \<open>(x, y)\<close> of a target whose rectangle starts at the origin\<close>
  "pointerAt x y = \<lparr>clientX = x, clientY = y, rect_left = 0, rect_top = 0, rect_width = 300\<rparr>"

definition pressedCorner :: component where
  \<comment> \<open>the plane pressed at its top left corner\<close>
  "pressedCorner = onMouseDown (pointerAt 0 0) redComponent"

definition releasedCorner :: component where
  \<comment> \<open>and the button released\<close>
  "releasedCorner = documentMouseUp pressedCorner"

definition hue37Component :: component where
  \<comment> \<open>the hue bar pressed at x = 31 and released\<close>
  "hue37Component = documentMouseUp (onHueMouseDown (pointerAt 31 0) redComponent)"

definition pressedCornerHue37 :: component where
  \<comment> \<open>then the plane pressed at its top left corner, the button still held\<close>
  "pressedCornerHue37 = onMouseDown (pointerAt 0 0) hue37Component"

definition typedComponent :: component where
  \<comment> \<open>the seeded component with 203, 98 and 98 typed into its number inputs\<close>
  "typedComponent = redComponent\<lparr>rgbInputs := (Some 203, Some 98, Some 98)\<rparr>"

definition editingComponent :: component where
  \<comment> \<open>a component with both buttons held and well-formed values typed into its inputs\<close>
  "editingComponent =
     exampleComponent\<lparr>isMouseDown := True, draggingHue := True,
       rgbInputs := (Some 1, Some 2, Some 3), hexInput := ''#FFaa0C''\<rparr>"

section \<open>Properties of the model\<close>

subsection \<open>Rounding\<close>

text \<open>
  \<open>ilog2\<close> computes the binary exponent of its argument, so \<open>fl\<close> keeps 53 significant bits:
  the rounded value differs from the exact one by at most \<open>2 ^ -53\<close> of it (\<open>fl_error\<close>).
\<close>

lemma fl_zero [simp]: "fl 0 = 0"
  by (simp add: fl_def)

lemma roundHalfEven_nonneg: "0 \<le> m \<Longrightarrow> 0 \<le> roundHalfEven m"
  by (simp add: roundHalfEven_def Let_def)

lemma fl_nonneg: "0 \<le> v \<Longrightarrow> 0 \<le> fl v"
  by (simp add: fl_def Let_def roundHalfEven_nonneg)

lemma bitLength_nonneg: "0 \<le> bitLength n"
proof (induction n rule: bitLength.induct)
  case (1 n)
  then show ?case by (subst bitLength.simps) simp
qed

lemma bitLength_bounds:
  "0 < n \<Longrightarrow> 2 ^ nat (bitLength n - 1) \<le> n \<and> n < 2 ^ nat (bitLength n)"
proof (induction n rule: bitLength.induct)
  case (1 n)
  show ?case
  proof (cases "n = 1")
    case True
    have "bitLength 1 = 1" by (simp add: bitLength.simps)
    with True show ?thesis by simp
  next
    case False
    with "1.prems" have m: "0 < n div 2" and n0: "\<not> n \<le> 0" by simp_all
    from "1.IH"[OF n0 m] have lo: "2 ^ nat (bitLength (n div 2) - 1) \<le> n div 2"
      and hi: "n div 2 < 2 ^ nat (bitLength (n div 2))" by simp_all
    have bl: "bitLength n = 1 + bitLength (n div 2)"
      using n0 by (subst bitLength.simps) simp
    have k: "1 \<le> bitLength (n div 2)"
      using m bitLength_nonneg[of "n div 2 div 2"] by (subst bitLength.simps) simp
    then have e1: "nat (bitLength n - 1) = Suc (nat (bitLength (n div 2) - 1))"
      and e2: "nat (bitLength n) = Suc (nat (bitLength (n div 2)))"
      unfolding bl by simp_all
    have "2 * (n div 2) \<le> n" "n \<le> 2 * (n div 2) + 1" by presburger+
    with lo hi show ?thesis unfolding e1 e2 by simp
  qed
qed

lemma bitLength_powi:
  assumes "0 < n"
  shows "(2::rat) powi (bitLength n - 1) \<le> of_int n" "of_int n + 1 \<le> (2::rat) powi (bitLength n)"
proof -
  from bitLength_bounds[OF assms] have lo: "2 ^ nat (bitLength n - 1) \<le> n" and hi: "n + 1 \<le> 2 ^ nat (bitLength n)"
    by simp_all
  have k: "1 \<le> bitLength n"
    using assms bitLength_nonneg[of "n div 2"] by (subst bitLength.simps) simp
  have "(2::rat) powi (bitLength n - 1) = of_int (2 ^ nat (bitLength n - 1))"
    using k by (simp add: power_int_def)
  also have "\<dots> \<le> of_int n" using lo by (simp only: of_int_le_iff)
  finally show "(2::rat) powi (bitLength n - 1) \<le> of_int n" .
  have "rat_of_int n + 1 = of_int (n + 1)" by simp
  also have "\<dots> \<le> of_int (2 ^ nat (bitLength n))" using hi by (simp only: of_int_le_iff)
  also have "\<dots> = (2::rat) powi (bitLength n)"
    using k by (simp add: power_int_def)
  finally show "of_int n + 1 \<le> (2::rat) powi (bitLength n)" .
qed

lemma ilog2_bounds:
  assumes "0 < v"
  shows "2 powi (ilog2 v) \<le> v" "v < 2 powi (ilog2 v + 1)"
proof -
  have "2 powi (ilog2 v) \<le> v \<and> v < 2 powi (ilog2 v + 1)"
  proof (cases "1 \<le> v")
    case True
    then have n: "0 < \<lfloor>v\<rfloor>" by simp
    have il: "ilog2 v = bitLength \<lfloor>v\<rfloor> - 1" using True by (simp add: ilog2_def)
    have "of_int \<lfloor>v\<rfloor> \<le> v" "v < of_int \<lfloor>v\<rfloor> + 1" by linarith+
    with bitLength_powi[OF n] have "2 powi (bitLength \<lfloor>v\<rfloor> - 1) \<le> v" "v < 2 powi (bitLength \<lfloor>v\<rfloor>)"
      by linarith+
    then show ?thesis unfolding il by simp
  next
    case False
    with assms have u: "1 < 1 / v" by simp
    define m where "m = \<lceil>1 / v\<rceil> - 1"
    have mu: "of_int m < 1 / v" "1 / v \<le> of_int m + 1"
      unfolding m_def by linarith+
    from u mu(2) have "0 < m" by linarith
    note b = bitLength_powi[OF this]
    have il: "ilog2 v = - bitLength m" using False by (simp add: ilog2_def m_def)
    have p0: "0 < (2::rat) powi (bitLength m)" "0 < (2::rat) powi (bitLength m - 1)" by simp_all
    have "1 / v \<le> 2 powi (bitLength m)" using mu(2) b(2) by linarith
    then have "1 / (2 powi (bitLength m)) \<le> v"
      using assms p0(1) by (simp add: field_simps)
    then have lo: "2 powi (- bitLength m) \<le> v"
      by (simp add: power_int_minus field_simps)
    have "2 powi (bitLength m - 1) < 1 / v" using mu(1) b(1) by linarith
    then have "v < 1 / (2 powi (bitLength m - 1))"
      using assms p0(2) by (simp add: field_simps)
    also have "1 / ((2::rat) powi (bitLength m - 1)) = 2 powi (- bitLength m + 1)"
      using power_int_minus[of "2::rat" "bitLength m - 1"] by (simp add: field_simps)
    finally have hi: "v < 2 powi (- bitLength m + 1)" .
    from lo hi show ?thesis unfolding il by simp
  qed
  then show "2 powi (ilog2 v) \<le> v" "v < 2 powi (ilog2 v + 1)" by simp_all
qed

lemma roundHalfEven_error: "\<bar>of_int (roundHalfEven m) - m\<bar> \<le> 1 / 2"
proof -
  define f :: rat where "f = of_int \<lfloor>m\<rfloor>"
  have "f \<le> m" "m < f + 1" unfolding f_def by linarith+
  then show ?thesis
    unfolding roundHalfEven_def Let_def f_def[symmetric]
    by (auto simp: abs_if f_def[symmetric])
qed

lemma fl_error: "\<bar>fl v - v\<bar> \<le> \<bar>v\<bar> / 2 ^ 53"
proof (cases "v = 0")
  case True
  then show ?thesis by (simp add: fl_def)
next
  case False
  define e where "e = ilog2 \<bar>v\<bar> - 52"
  define s :: rat where "s = 2 powi e"
  have s0: "0 < s" by (simp add: s_def)
  have fl: "fl v = of_int (roundHalfEven (v / s)) * s"
    using False by (simp add: fl_def Let_def e_def s_def)
  from False have "0 < \<bar>v\<bar>" by simp
  from ilog2_bounds(1)[OF this] have "2 powi (e + 52) \<le> \<bar>v\<bar>" by (simp add: e_def)
  then have big: "s * 2 ^ 52 \<le> \<bar>v\<bar>"
    by (simp add: s_def power_int_add)
  have "fl v - v = (of_int (roundHalfEven (v / s)) - v / s) * s"
    using s0 by (simp add: fl field_simps)
  then have "\<bar>fl v - v\<bar> = \<bar>of_int (roundHalfEven (v / s)) - v / s\<bar> * s"
    using s0 by (simp add: abs_mult)
  also have "\<dots> \<le> 1 / 2 * s"
    using roundHalfEven_error[of "v / s"] s0 by (intro mult_right_mono) simp_all
  also have "\<dots> = s * 2 ^ 52 / 2 ^ 53" by simp
  also have "\<dots> \<le> \<bar>v\<bar> / 2 ^ 53" using big by (intro divide_right_mono) simp_all
  finally show ?thesis .
qed

lemma fl_pos_range:
  assumes "0 < fl v"
  shows "0 < v" "fl v * (1 - 1 / 2 ^ 52) \<le> v" "v \<le> fl v * (1 + 1 / 2 ^ 52)"
proof -
  note e = fl_error[of v]
  show pos: "0 < v"
  proof (rule ccontr)
    assume "\<not> 0 < v"
    then have "\<bar>v\<bar> = - v" by simp
    with e assms show False by (simp add: abs_if split: if_splits)
  qed
  then have "\<bar>v\<bar> = v" by simp
  with e have "fl v - v \<le> v / 2 ^ 53" "v - fl v \<le> v / 2 ^ 53"
    by (simp_all add: abs_if split: if_splits)
  with pos show "fl v * (1 - 1 / 2 ^ 52) \<le> v" "v \<le> fl v * (1 + 1 / 2 ^ 52)"
    by simp_all
qed

lemma fl_nonneg_range:
  assumes "0 \<le> v"
  shows "v * (1 - 1 / 2 ^ 53) \<le> fl v" "fl v \<le> v * (1 + 1 / 2 ^ 53)"
proof -
  from assms have "\<bar>v\<bar> = v" by simp
  with fl_error[of v] have "fl v - v \<le> v / 2 ^ 53" "v - fl v \<le> v / 2 ^ 53"
    by (simp_all add: abs_if split: if_splits)
  then show "v * (1 - 1 / 2 ^ 53) \<le> fl v" "fl v \<le> v * (1 + 1 / 2 ^ 53)"
    by (simp_all add: algebra_simps)
qed

lemma Math_round_eq: "Math_round v = n \<longleftrightarrow> of_int n - 1 / 2 \<le> v \<and> v < of_int n + 1 / 2"
  unfolding Math_round_def floor_eq_iff by auto

lemma toUint8Clamped_eq: "0 < n \<Longrightarrow> n < 255 \<Longrightarrow> toUint8Clamped v = n \<longleftrightarrow> v = n"
  by (auto simp: toUint8Clamped_def)

lemma fl_eq_0_iff: "fl v = 0 \<longleftrightarrow> v = 0"
proof
  assume "fl v = 0"
  with fl_error[of v] have "\<bar>v\<bar> \<le> \<bar>v\<bar> / 2 ^ 53" by simp
  then show "v = 0" by simp
qed simp

subsection \<open>What each step leaves alone\<close>

lemma Math_floor_of_nat [simp]: "Math_floor (of_nat n) = int n"
  by (simp add: Math_floor_def)

lemma getColorAt_pixelAt:
  "x < width st \<Longrightarrow> y < height st \<Longrightarrow> getColorAt st (of_nat x) (of_nat y) = pixelAt (canvas st) (width st) x y"
  by (simp add: getColorAt_def pixelAt_def Let_def)

lemma renderCanvasWithHue_fields [simp]:
  "width (renderCanvasWithHue hu st) = width st"
  "height (renderCanvasWithHue hu st) = height st"
  "hue (renderCanvasWithHue hu st) = hue st"
  "loupe_x (renderCanvasWithHue hu st) = loupe_x st"
  "loupe_y (renderCanvasWithHue hu st) = loupe_y st"
  "rgbInputs (renderCanvasWithHue hu st) = rgbInputs st"
  "hexInput (renderCanvasWithHue hu st) = hexInput st"
  "emitted (renderCanvasWithHue hu st) = emitted st"
  "onColorChangeCallback (renderCanvasWithHue hu st) = onColorChangeCallback st"
  "isMouseDown (renderCanvasWithHue hu st) = isMouseDown st"
  "draggingHue (renderCanvasWithHue hu st) = draggingHue st"
  "selectedColor (renderCanvasWithHue hu st) = selectedColor st"
  "ctx_stroke (renderCanvasWithHue hu st) = ctx_stroke st"
  by (simp_all add: renderCanvasWithHue_def)

lemma canvas_rendered:
  "canvas (renderCanvasWithHue hu st) =
     ctx_stroke st (loupe_x st) (loupe_y st) 14 (width st) (height st)
       (planeImageData hu (width st) (height st))"
  by (simp add: renderCanvasWithHue_def)

lemma pixel_index:
  fixes x y w c :: nat
  assumes "x < w" "c < 4"
  shows "((y * w + x) * 4 + c) div 4 = y * w + x" "((y * w + x) * 4 + c) mod 4 = c"
        "(y * w + x) mod w = x" "(y * w + x) div w = y"
proof -
  show "((y * w + x) * 4 + c) div 4 = y * w + x" "((y * w + x) * 4 + c) mod 4 = c"
    using assms(2) by presburger+
  show "(y * w + x) mod w = x" "(y * w + x) div w = y"
    using assms(1) by simp_all
qed

lemma planeImageData_byte:
  assumes "x < w" "y < h" "c < 4" "planePixel hu w h x y = (r, g, b)"
  shows "planeImageData hu w h ((y * w + x) * 4 + c)
         = (if c = 0 then r else if c = 1 then g else if c = 2 then b else 255)"
proof -
  have "w \<noteq> 0" using assms(1) by simp
  then show ?thesis
    using assms(2,4) unfolding planeImageData_def Let_def pixel_index[OF assms(1,3)] by simp
qed

lemma pixelAt_planeImageData:
  assumes "x < w" "y < h"
  shows "pixelAt (planeImageData hu w h) w x y = planePixel hu w h x y"
proof -
  obtain r g b where p: "planePixel hu w h x y = (r, g, b)"
    by (cases "planePixel hu w h x y")
  from planeImageData_byte[OF assms _ p, of 0] planeImageData_byte[OF assms _ p, of 1]
       planeImageData_byte[OF assms _ p, of 2]
  show ?thesis unfolding pixelAt_def p by simp
qed

subsection \<open>The inverse search\<close>

lemma finite64_nonneg: "0 \<le> v \<Longrightarrow> finite64 v = Some u \<Longrightarrow> 0 \<le> u"
  by (auto simp: finite64_def Let_def fl_nonneg split: if_splits)

lemma square64_nonneg: "square64 d = Some u \<Longrightarrow> 0 \<le> u"
proof -
  assume "square64 d = Some u"
  then obtain v where "finite64 (v * v) = Some u" by (auto simp: square64_def split: option.splits)
  from finite64_nonneg[OF _ this] show ?thesis by simp
qed

lemma add64_nonneg:
  assumes "\<And>u. a = Some u \<Longrightarrow> 0 \<le> u" "\<And>u. b = Some u \<Longrightarrow> 0 \<le> u" "add64 a b = Some c"
  shows "0 \<le> c"
proof -
  from assms(3) obtain u v where a: "a = Some u" and b: "b = Some v" and c: "finite64 (u + v) = Some c"
    by (auto simp: add64_def split: option.splits)
  from assms(1)[OF a] assms(2)[OF b] have "0 \<le> u + v" by simp
  from finite64_nonneg[OF this c] show ?thesis .
qed

lemma dist64_nonneg: "dist64 p t = Some d \<Longrightarrow> 0 \<le> d"
proof (cases p, cases t)
  fix a b c r g bb
  assume p: "p = (a, b, c)" and t: "t = (r, g, bb)" and d: "dist64 p t = Some d"
  have "0 \<le> u" if "add64 (square64 (sub64 a r)) (square64 (sub64 b g)) = Some u" for u
    using add64_nonneg[OF _ _ that] square64_nonneg by blast
  from add64_nonneg[OF this _ d[unfolded p t dist64.simps]] square64_nonneg show ?thesis by blast
qed

lemma ilog2_zero: "ilog2 0 = 0"
  by (simp add: ilog2_def bitLength.simps)

lemma finite64_zero_iff: "finite64 v = Some 0 \<longleftrightarrow> v = 0"
  by (auto simp: finite64_def Let_def fl_eq_0_iff ilog2_zero)

lemma sub64_zero_iff: "sub64 a b = Some 0 \<longleftrightarrow> a = b"
  by (simp add: sub64_def finite64_zero_iff)

lemma square64_zero_iff: "square64 d = Some 0 \<longleftrightarrow> d = Some 0"
  by (cases d) (simp_all add: square64_def finite64_zero_iff)

lemma add64_zero_iff:
  assumes "\<And>u. a = Some u \<Longrightarrow> 0 \<le> u" "\<And>u. b = Some u \<Longrightarrow> 0 \<le> u"
  shows "add64 a b = Some 0 \<longleftrightarrow> a = Some 0 \<and> b = Some 0"
proof (cases a)
  case None
  then show ?thesis by (simp add: add64_def)
next
  case a: (Some u)
  show ?thesis
  proof (cases b)
    case None
    then show ?thesis by (simp add: add64_def a)
  next
    case b: (Some v)
    from assms a b have "0 \<le> u" "0 \<le> v" by simp_all
    then have "u + v = 0 \<longleftrightarrow> u = 0 \<and> v = 0" by linarith
    then show ?thesis by (simp add: add64_def a b finite64_zero_iff)
  qed
qed

lemma dist64_zero_iff: "dist64 p t = Some 0 \<longleftrightarrow> p = t"
proof (cases p, cases t)
  fix a b c r g bb
  assume p: "p = (a, b, c)" and t: "t = (r, g, bb)"
  have n1: "0 \<le> u" if "add64 (square64 (sub64 a r)) (square64 (sub64 b g)) = Some u" for u
    using add64_nonneg[OF _ _ that] square64_nonneg by blast
  have "dist64 p t = Some 0 \<longleftrightarrow>
          add64 (square64 (sub64 a r)) (square64 (sub64 b g)) = Some 0 \<and> square64 (sub64 c bb) = Some 0"
    unfolding p t dist64.simps using n1 square64_nonneg by (intro add64_zero_iff) blast+
  also have "add64 (square64 (sub64 a r)) (square64 (sub64 b g)) = Some 0
          \<longleftrightarrow> square64 (sub64 a r) = Some 0 \<and> square64 (sub64 b g) = Some 0"
    using square64_nonneg by (intro add64_zero_iff) blast+
  finally show ?thesis
    by (simp add: p t square64_zero_iff sub64_zero_iff)
qed

lemma finite64_bound:
  assumes "finite64 v = Some u"
  shows "\<bar>u\<bar> < 2 ^ 1024"
proof (cases "u = 0")
  case True
  then show ?thesis by simp
next
  case False
  from assms have u: "u = fl v" and e: "ilog2 \<bar>u\<bar> < 1024"
    by (auto simp: finite64_def Let_def split: if_splits)
  from False have "0 < \<bar>u\<bar>" by simp
  from ilog2_bounds(2)[OF this] have "\<bar>u\<bar> < 2 powi (ilog2 \<bar>u\<bar> + 1)" .
  also have "\<dots> \<le> (2::rat) powi 1024"
    using e by (intro power_int_increasing) simp_all
  finally show ?thesis by simp
qed

lemma finite64_overflow:
  assumes "2 ^ 1025 \<le> \<bar>v\<bar>"
  shows "finite64 v = None"
proof (cases "finite64 v")
  case (Some u)
  then have u: "u = fl v" by (auto simp: finite64_def Let_def split: if_splits)
  from fl_error[of v] have "\<bar>v\<bar> - \<bar>v\<bar> / 2 ^ 53 \<le> \<bar>fl v\<bar>" by linarith
  with assms have "2 ^ 1024 \<le> \<bar>fl v\<bar>" by simp
  with finite64_bound[OF Some] u show ?thesis by simp
qed simp

lemma sub64_large:
  assumes "2 ^ 600 \<le> \<bar>r\<bar>" "0 \<le> a" "a \<le> 255" "sub64 a r = Some d"
  shows "2 ^ 598 \<le> \<bar>d\<bar>"
proof -
  from assms(4) have d: "d = fl (of_int a - of_int r)"
    by (auto simp: sub64_def finite64_def Let_def split: if_splits)
  have "(2::rat) ^ 600 \<le> of_int \<bar>r\<bar>"
    using assms(1) of_int_le_iff[where ?'a = rat, of "2 ^ 600" "\<bar>r\<bar>"] by simp
  moreover have "rat_of_int a \<le> 255" "0 \<le> rat_of_int a" using assms(2,3) by simp_all
  ultimately have big: "2 ^ 599 \<le> \<bar>rat_of_int a - of_int r\<bar>" by simp
  from fl_error[of "of_int a - of_int r"]
  have "\<bar>rat_of_int a - of_int r\<bar> - \<bar>rat_of_int a - of_int r\<bar> / 2 ^ 53 \<le> \<bar>fl (of_int a - of_int r)\<bar>"
    by linarith
  with big show ?thesis unfolding d by simp
qed

lemma square64_large:
  assumes "2 ^ 600 \<le> \<bar>r\<bar>" "0 \<le> a" "a \<le> 255"
  shows "square64 (sub64 a r) = None"
proof (cases "sub64 a r")
  case (Some d)
  from sub64_large[OF assms Some] have "2 ^ 598 * 2 ^ 598 \<le> \<bar>d\<bar> * \<bar>d\<bar>"
    by (intro mult_mono) simp_all
  then have "2 ^ 1025 \<le> \<bar>d * d\<bar>" by (simp add: abs_mult)
  from finite64_overflow[OF this] Some show ?thesis by (simp add: square64_def)
qed (simp add: square64_def)

lemma dist64_overflow:
  assumes "2 ^ 600 \<le> \<bar>r\<bar>" "0 \<le> pr" "pr \<le> 255"
  shows "dist64 (pr, pg, pb) (r, g, b) = None"
  using square64_large[OF assms] by (simp add: add64_def)

lemma finite64_small:
  assumes "\<bar>v\<bar> \<le> 2 ^ 1000"
  shows "\<exists>u. finite64 v = Some u \<and> \<bar>u\<bar> \<le> 2 * \<bar>v\<bar>"
proof -
  have "\<bar>v\<bar> / 2 ^ 53 \<le> \<bar>v\<bar>" by (simp add: field_simps)
  with fl_error[of v] have le: "\<bar>fl v\<bar> \<le> 2 * \<bar>v\<bar>" by linarith
  have "ilog2 \<bar>fl v\<bar> < 1024"
  proof (cases "fl v = 0")
    case True
    then show ?thesis by (simp add: ilog2_zero)
  next
    case False
    then have "0 < \<bar>fl v\<bar>" by simp
    from ilog2_bounds(1)[OF this] le assms have lt: "(2::rat) powi (ilog2 \<bar>fl v\<bar>) < 2 powi 1024"
      by simp
    show ?thesis
    proof (rule ccontr)
      assume "\<not> ilog2 \<bar>fl v\<bar> < 1024"
      then have "(2::rat) powi 1024 \<le> 2 powi (ilog2 \<bar>fl v\<bar>)"
        by (intro power_int_increasing) simp_all
      with lt show False by simp
    qed
  qed
  with le show ?thesis by (simp add: finite64_def Let_def)
qed

lemma sub64_small:
  assumes "\<bar>r\<bar> \<le> 2 ^ 400" "0 \<le> a" "a \<le> 255"
  shows "\<exists>d. sub64 a r = Some d \<and> \<bar>d\<bar> \<le> 2 ^ 402"
proof -
  have "rat_of_int \<bar>r\<bar> \<le> 2 ^ 400"
    using assms(1) of_int_le_iff[where ?'a = rat, of "\<bar>r\<bar>" "2 ^ 400"] by simp
  moreover have "rat_of_int a \<le> 255" "0 \<le> rat_of_int a" using assms(2,3) by simp_all
  ultimately have small: "\<bar>rat_of_int a - of_int r\<bar> \<le> 2 ^ 401" by simp
  then have "\<bar>rat_of_int a - of_int r\<bar> \<le> 2 ^ 1000" by simp
  from finite64_small[OF this] small show ?thesis
    unfolding sub64_def by fastforce
qed

lemma square64_small:
  assumes "\<bar>r\<bar> \<le> 2 ^ 400" "0 \<le> a" "a \<le> 255"
  shows "\<exists>u. square64 (sub64 a r) = Some u \<and> \<bar>u\<bar> \<le> 2 ^ 805"
proof -
  from sub64_small[OF assms] obtain d where d: "sub64 a r = Some d" "\<bar>d\<bar> \<le> 2 ^ 402" by blast
  have "\<bar>d\<bar> * \<bar>d\<bar> \<le> 2 ^ 402 * 2 ^ 402"
    using d(2) by (intro mult_mono) simp_all
  then have small: "\<bar>d * d\<bar> \<le> 2 ^ 804" by (simp add: abs_mult)
  then have "\<bar>d * d\<bar> \<le> 2 ^ 1000" by simp
  from finite64_small[OF this] small show ?thesis
    unfolding square64_def d(1) by fastforce
qed

lemma dist64_finite:
  assumes "\<bar>r\<bar> \<le> 2 ^ 400" "\<bar>g\<bar> \<le> 2 ^ 400" "\<bar>b\<bar> \<le> 2 ^ 400"
    and "0 \<le> pr" "pr \<le> 255" "0 \<le> pg" "pg \<le> 255" "0 \<le> pb" "pb \<le> 255"
  shows "dist64 (pr, pg, pb) (r, g, b) \<noteq> None"
proof -
  from square64_small[OF assms(1,4,5)] obtain u where u: "square64 (sub64 pr r) = Some u" "\<bar>u\<bar> \<le> 2 ^ 805"
    by blast
  from square64_small[OF assms(2,6,7)] obtain v where v: "square64 (sub64 pg g) = Some v" "\<bar>v\<bar> \<le> 2 ^ 805"
    by blast
  from square64_small[OF assms(3,8,9)] obtain w where w: "square64 (sub64 pb b) = Some w" "\<bar>w\<bar> \<le> 2 ^ 805"
    by blast
  from u(2) v(2) have uv: "\<bar>u + v\<bar> \<le> 2 ^ 806" by simp
  then have "\<bar>u + v\<bar> \<le> 2 ^ 1000" by simp
  from finite64_small[OF this] uv obtain s where s: "finite64 (u + v) = Some s" "\<bar>s\<bar> \<le> 2 ^ 807"
    by fastforce
  from s(2) w(2) have "\<bar>s + w\<bar> \<le> 2 ^ 1000" by simp
  from finite64_small[OF this] obtain t where "finite64 (s + w) = Some t" by blast
  then show ?thesis by (simp add: u v w s add64_def)
qed

lemma lessThanBest_irrefl [simp]: "\<not> lessThanBest a a"
  by (cases a) simp_all

lemma lessThanBest_asym: "lessThanBest a b \<Longrightarrow> \<not> lessThanBest b a"
  by (cases a; cases b) simp_all

lemma lessThanBest_trans: "lessThanBest a b \<Longrightarrow> \<not> lessThanBest c b \<Longrightarrow> lessThanBest a c"
  by (cases a; cases b; cases c) simp_all

lemma lessThanBest_Some: "lessThanBest a b \<Longrightarrow> \<exists>v. a = Some v"
  by (cases a) simp_all

lemma not_lessThanBest_zero: "dist64 p t = a \<Longrightarrow> \<not> lessThanBest a (Some 0)"
  using dist64_nonneg[of p t] by (cases a) auto

lemma scanned_step: "X < w \<Longrightarrow> scanned w (Suc X) Y x y = (scanned w X Y x y \<or> (x = X \<and> y = Y))"
  by (auto simp: scanned_def)

lemma scanned_row_end: "scanned w w Y x y = scanned w 0 (Suc Y) x y"
  by (auto simp: scanned_def)

lemma scanned_not_before: "scanned w X Y bx by \<Longrightarrow> \<not> rowMajorBefore (X, Y) (bx, by)"
  by (auto simp: scanned_def rowMajorBefore_def)

lemma scanned_before: "scanned w X Y bx by \<Longrightarrow> x < w \<Longrightarrow> rowMajorBefore (x, y) (bx, by) \<Longrightarrow> scanned w X Y x y"
  by (auto simp: scanned_def rowMajorBefore_def)

lemma bestSoFar_None:
  "bestSoFar data w t X Y (bx, by, None) =
     (bx = 0 \<and> by = 0
      \<and> (\<forall>x y. scanned w X Y x y \<and> searched t (pixelAt data w x y) \<longrightarrow> dist64 (pixelAt data w x y) t = None))"
  by (simp add: bestSoFar_def)

lemma bestSoFar_Some:
  "bestSoFar data w t X Y (bx, by, Some d) =
     (scanned w X Y bx by \<and> searched t (pixelAt data w bx by)
      \<and> dist64 (pixelAt data w bx by) t = Some d
      \<and> (\<forall>x y. scanned w X Y x y \<and> searched t (pixelAt data w x y) \<longrightarrow>
            \<not> lessThanBest (dist64 (pixelAt data w x y) t) (Some d)
            \<and> (rowMajorBefore (x, y) (bx, by) \<longrightarrow> lessThanBest (Some d) (dist64 (pixelAt data w x y) t))))"
  by (simp add: bestSoFar_def)

lemma bestSoFar_zero_final:
  assumes "bestSoFar data w t X Y (bx, by, Some 0)" and "Y < h"
  shows "bestSoFar data w t 0 h (bx, by, Some 0)"
proof -
  from assms(1) have sc: "scanned w X Y bx by" and se: "searched t (pixelAt data w bx by)"
    and d0: "dist64 (pixelAt data w bx by) t = Some 0"
    and mn: "\<And>x y. scanned w X Y x y \<Longrightarrow> searched t (pixelAt data w x y) \<Longrightarrow>
               rowMajorBefore (x, y) (bx, by) \<Longrightarrow> lessThanBest (Some 0) (dist64 (pixelAt data w x y) t)"
    by (auto simp: bestSoFar_Some)
  have sc': "scanned w 0 h bx by"
    using sc assms(2) by (auto simp: scanned_def)
  have "lessThanBest (Some 0) (dist64 (pixelAt data w x y) t)"
    if "scanned w 0 h x y" and "searched t (pixelAt data w x y)" and "rowMajorBefore (x, y) (bx, by)" for x y
  proof -
    from that(1) have "x < w" by (simp add: scanned_def)
    then have "scanned w X Y x y" using scanned_before[OF sc] that(3) by blast
    then show ?thesis using mn that by blast
  qed
  then show ?thesis
    using sc' se d0 not_lessThanBest_zero by (simp add: bestSoFar_Some)
qed

lemma bestSoFar_keep:
  assumes inv: "bestSoFar data w t X Y (bx, by, bd)" and "X < w"
    and pix: "searched t (pixelAt data w X Y) \<Longrightarrow> \<not> lessThanBest (dist64 (pixelAt data w X Y) t) bd"
  shows "bestSoFar data w t (Suc X) Y (bx, by, bd)"
proof (cases bd)
  case None
  have "dist64 (pixelAt data w x y) t = None"
    if "scanned w (Suc X) Y x y" and s: "searched t (pixelAt data w x y)" for x y
  proof (cases "x = X \<and> y = Y")
    case True
    with pix s None show ?thesis by (cases "dist64 (pixelAt data w x y) t") auto
  next
    case False
    with that(1) have "scanned w X Y x y" by (simp add: scanned_step[OF assms(2)])
    with inv None s show ?thesis by (simp add: bestSoFar_None)
  qed
  with inv None show ?thesis by (simp add: bestSoFar_None)
next
  case (Some d)
  from inv Some have sc: "scanned w X Y bx by" and se: "searched t (pixelAt data w bx by)"
    and dd: "dist64 (pixelAt data w bx by) t = Some d"
    and mn: "\<And>x y. scanned w X Y x y \<Longrightarrow> searched t (pixelAt data w x y) \<Longrightarrow>
               \<not> lessThanBest (dist64 (pixelAt data w x y) t) (Some d)
               \<and> (rowMajorBefore (x, y) (bx, by) \<longrightarrow> lessThanBest (Some d) (dist64 (pixelAt data w x y) t))"
    by (auto simp: bestSoFar_Some)
  have "\<not> lessThanBest (dist64 (pixelAt data w x y) t) (Some d)
        \<and> (rowMajorBefore (x, y) (bx, by) \<longrightarrow> lessThanBest (Some d) (dist64 (pixelAt data w x y) t))"
    if "scanned w (Suc X) Y x y" and s: "searched t (pixelAt data w x y)" for x y
  proof (cases "x = X \<and> y = Y")
    case True
    with pix s Some have "\<not> lessThanBest (dist64 (pixelAt data w x y) t) (Some d)" by auto
    moreover have "\<not> rowMajorBefore (x, y) (bx, by)"
      using scanned_not_before[OF sc] True by simp
    ultimately show ?thesis by simp
  next
    case False
    with that(1) have "scanned w X Y x y" by (simp add: scanned_step[OF assms(2)])
    then show ?thesis using mn s by blast
  qed
  moreover have "scanned w (Suc X) Y bx by"
    using sc by (simp add: scanned_step[OF assms(2)])
  ultimately show ?thesis
    using Some se dd by (simp add: bestSoFar_Some)
qed

lemma bestSoFar_replace:
  assumes inv: "bestSoFar data w t X Y (bx, by, bd)" and "X < w"
    and se: "searched t (pixelAt data w X Y)"
    and less: "lessThanBest (dist64 (pixelAt data w X Y) t) bd"
  shows "bestSoFar data w t (Suc X) Y (X, Y, dist64 (pixelAt data w X Y) t)"
proof -
  from lessThanBest_Some[OF less] obtain v where v: "dist64 (pixelAt data w X Y) t = Some v" by blast
  have old: "lessThanBest (Some v) (dist64 (pixelAt data w x y) t)"
    if "scanned w X Y x y" and "searched t (pixelAt data w x y)" for x y
  proof (cases bd)
    case None
    with inv that show ?thesis by (simp add: bestSoFar_None)
  next
    case (Some d)
    with inv that have "\<not> lessThanBest (dist64 (pixelAt data w x y) t) (Some d)"
      by (auto simp: bestSoFar_Some)
    with less show ?thesis unfolding v Some by (rule lessThanBest_trans)
  qed
  have "\<not> lessThanBest (dist64 (pixelAt data w x y) t) (Some v)
        \<and> (rowMajorBefore (x, y) (X, Y) \<longrightarrow> lessThanBest (Some v) (dist64 (pixelAt data w x y) t))"
    if "scanned w (Suc X) Y x y" and s: "searched t (pixelAt data w x y)" for x y
  proof (cases "x = X \<and> y = Y")
    case True
    then show ?thesis by (simp add: rowMajorBefore_def v)
  next
    case False
    with that(1) have "scanned w X Y x y" by (simp add: scanned_step[OF assms(2)])
    from old[OF this s] lessThanBest_asym show ?thesis by blast
  qed
  moreover have "scanned w (Suc X) Y X Y"
    using assms(2) by (simp add: scanned_def)
  ultimately show ?thesis
    using se unfolding v by (simp add: bestSoFar_Some v)
qed

lemma scanRow_unfold:
  "scanRow data w r g b y x (bx, by, bd) =
     (if x < w then
        if \<not> searched (r, g, b) (pixelAt data w x y) then scanRow data w r g b y (Suc x) (bx, by, bd)
        else if lessThanBest (dist64 (pixelAt data w x y) (r, g, b)) bd
          then (if dist64 (pixelAt data w x y) (r, g, b) = Some 0 then (x, y, Some 0)
                else scanRow data w r g b y (Suc x) (x, y, dist64 (pixelAt data w x y) (r, g, b)))
          else scanRow data w r g b y (Suc x) (bx, by, bd)
      else (bx, by, bd))"
  by (subst scanRow.simps) (auto simp: Let_def searched_def pixelAt_def)

lemma scanRow_bestSoFar:
  assumes "bestSoFar data w (r, g, b) X Y best" and "snd (snd best) \<noteq> Some 0" and "Y < h" and "X \<le> w"
  shows "if snd (snd (scanRow data w r g b Y X best)) = Some 0
         then bestSoFar data w (r, g, b) 0 h (scanRow data w r g b Y X best)
         else bestSoFar data w (r, g, b) 0 (Suc Y) (scanRow data w r g b Y X best)"
  using assms
proof (induction "w - X" arbitrary: X best)
  case 0
  then have "X = w" by simp
  obtain bx "by" bd where best: "best = (bx, by, bd)" by (cases best)
  have "bestSoFar data w (r, g, b) 0 (Suc Y) (bx, by, bd)"
    using "0.prems"(1) \<open>X = w\<close> best
    by (cases bd) (simp_all add: bestSoFar_None bestSoFar_Some scanned_row_end)
  then show ?case
    using "0.prems"(2) best \<open>X = w\<close> by (simp add: scanRow_unfold[of data w r g b Y w])
next
  case (Suc n)
  then have xw: "X < w" and n: "n = w - Suc X" by simp_all
  obtain bx "by" bd where best: "best = (bx, by, bd)" by (cases best)
  let ?p = "pixelAt data w X Y"
  let ?d = "dist64 ?p (r, g, b)"
  have IH: "if snd (snd (scanRow data w r g b Y (Suc X) best')) = Some 0
         then bestSoFar data w (r, g, b) 0 h (scanRow data w r g b Y (Suc X) best')
         else bestSoFar data w (r, g, b) 0 (Suc Y) (scanRow data w r g b Y (Suc X) best')"
    if "bestSoFar data w (r, g, b) (Suc X) Y best'" and "snd (snd best') \<noteq> Some 0" for best'
    using Suc.hyps(1)[OF n that(1) that(2) Suc.prems(3)] xw by simp
  consider (skip) "\<not> searched (r, g, b) ?p \<or> \<not> lessThanBest ?d bd"
    | (hit) "searched (r, g, b) ?p" "lessThanBest ?d bd" "?d = Some 0"
    | (better) "searched (r, g, b) ?p" "lessThanBest ?d bd" "?d \<noteq> Some 0"
    by blast
  then show ?case
  proof cases
    case skip
    then have eq: "scanRow data w r g b Y X best = scanRow data w r g b Y (Suc X) best"
      using xw unfolding best by (subst scanRow_unfold) auto
    have "bestSoFar data w (r, g, b) (Suc X) Y (bx, by, bd)"
      using bestSoFar_keep[OF _ xw] Suc.prems(1) best skip by blast
    then show ?thesis
      unfolding eq using IH Suc.prems(2) best by blast
  next
    case hit
    then have eq: "scanRow data w r g b Y X best = (X, Y, Some 0)"
      using xw unfolding best by (subst scanRow_unfold) auto
    have "bestSoFar data w (r, g, b) (Suc X) Y (X, Y, Some 0)"
      using bestSoFar_replace[OF _ xw hit(1,2)] Suc.prems(1) best hit(3) by simp
    from bestSoFar_zero_final[OF this Suc.prems(3)] show ?thesis
      unfolding eq by simp
  next
    case better
    then have eq: "scanRow data w r g b Y X best = scanRow data w r g b Y (Suc X) (X, Y, ?d)"
      using xw unfolding best by (subst scanRow_unfold) auto
    have "bestSoFar data w (r, g, b) (Suc X) Y (X, Y, ?d)"
      using bestSoFar_replace[OF _ xw better(1,2)] Suc.prems(1) best by simp
    then show ?thesis
      unfolding eq using IH better(3) by simp
  qed
qed

lemma scanRows_bestSoFar:
  assumes "bestSoFar data w (r, g, b) 0 Y best" and "snd (snd best) \<noteq> Some 0" and "Y \<le> h"
  shows "bestSoFar data w (r, g, b) 0 h (scanRows data w h r g b Y best)"
  using assms
proof (induction "h - Y" arbitrary: Y best)
  case 0
  then have hY: "h = Y" by simp
  have "scanRows data w h r g b Y best = best"
    unfolding hY by (subst scanRows.simps) simp
  with "0.prems"(1) hY show ?case by simp
next
  case (Suc n)
  then have yh: "Y < h" and n: "n = h - Suc Y" by simp_all
  let ?best = "scanRow data w r g b Y 0 best"
  note row = scanRow_bestSoFar[OF Suc.prems(1) Suc.prems(2) yh, simplified]
  show ?case
  proof (cases "snd (snd ?best) = Some 0")
    case True
    then show ?thesis
      using row yh by (simp add: scanRows.simps[of data w h r g b Y] Let_def)
  next
    case False
    with row have "bestSoFar data w (r, g, b) 0 (Suc Y) ?best" by simp
    from Suc.hyps(1)[OF n this False] yh False show ?thesis
      by (simp add: scanRows.simps[of data w h r g b Y] Let_def)
  qed
qed

lemma scanRows_start:
  "bestSoFar data w (r, g, b) 0 h (scanRows data w h r g b 0 (0, 0, None))"
  by (rule scanRows_bestSoFar) (simp_all add: bestSoFar_None scanned_def)

lemma squaredDistance_zero: "squaredDistance p t = 0 \<longleftrightarrow> p = t"
proof (cases p, cases t)
  fix a b c d e f :: int
  assume p: "p = (a, b, c)" and t: "t = (d, e, f)"
  have sq: "x * x = 0 \<longleftrightarrow> x = 0" "0 \<le> x * x" for x :: int by simp_all
  have "(a - d) * (a - d) + (b - e) * (b - e) + (c - f) * (c - f) = 0
        \<longleftrightarrow> (a - d) * (a - d) = 0 \<and> (b - e) * (b - e) = 0 \<and> (c - f) * (c - f) = 0"
    using sq(2)[of "a - d"] sq(2)[of "b - e"] sq(2)[of "c - f"] by linarith
  then show ?thesis using p t by simp
qed

lemma syncLoupeToColor_loupe:
  "scanRows (canvas st) (width st) (height st) r g b 0 (0, 0, None) = (bx, by, bd) \<Longrightarrow>
     loupe_x (syncLoupeToColor r g b st) = of_nat bx \<and> loupe_y (syncLoupeToColor r g b st) = of_nat by"
  by (simp add: syncLoupeToColor_def)

lemma hslToRgb_gray: "isGrayColor (hslToRgb h 0 l)"
  by (simp add: hslToRgb_def)

lemma planePixel_origin_gray: "isGrayColor (planePixel hu w h 0 y)"
proof (cases "w = 1 \<or> h = 1")
  case True
  then show ?thesis by (simp add: planePixel_def)
next
  case False
  let ?l = "fl (1 - fl (of_nat y / (of_nat h - 1)))"
  obtain r g b where c: "hslToRgb (fl (of_int hu / 360)) 0 ?l = (r, g, b)"
    by (cases "hslToRgb (fl (of_int hu / 360)) 0 ?l")
  with hslToRgb_gray[of "fl (of_int hu / 360)" ?l] have "r = g \<and> g = b" by simp
  with False c show ?thesis by (simp add: planePixel_def)
qed

lemma rendered_origin_gray:
  assumes "keepsGray (ctx_stroke st)" and "0 < width st" and "0 < height st"
  shows "isGrayColor (pixelAt (canvas (renderCanvasWithHue hu st)) (width st) 0 0)"
proof -
  have "isGrayColor (pixelAt (planeImageData hu (width st) (height st)) (width st) 0 0)"
    using planePixel_origin_gray[of hu "width st" "height st" 0] assms(2,3)
    by (simp add: pixelAt_planeImageData)
  with assms show ?thesis
    unfolding canvas_rendered keepsGray_def by blast
qed

lemma searched_self: "searched t t"
  by (simp add: searched_def)

lemma search_exact:
  assumes hit: "x0 < w" "y0 < h" "pixelAt data w x0 y0 = (r, g, b)"
    and res: "scanRows data w h r g b 0 (0, 0, None) = (bx, by, bd)"
  shows "bx < w \<and> by < h \<and> pixelAt data w bx by = (r, g, b)
         \<and> (\<forall>x y. x < w \<and> rowMajorBefore (x, y) (bx, by) \<longrightarrow> pixelAt data w x y \<noteq> (r, g, b))"
proof -
  have inv: "bestSoFar data w (r, g, b) 0 h (bx, by, bd)"
    using scanRows_start[of data w r g b h] res by simp
  have sc0: "scanned w 0 h x0 y0" using hit by (simp add: scanned_def)
  have se0: "searched (r, g, b) (pixelAt data w x0 y0)" using hit(3) by (simp add: searched_self)
  have d0: "dist64 (pixelAt data w x0 y0) (r, g, b) = Some 0"
    by (simp only: dist64_zero_iff hit(3))
  from inv sc0 se0 d0 obtain d where bd: "bd = Some d"
    by (cases bd) (auto simp: bestSoFar_None)
  from inv bd have sc: "scanned w 0 h bx by"
    and dd: "dist64 (pixelAt data w bx by) (r, g, b) = Some d"
    and mn: "\<And>x y. scanned w 0 h x y \<Longrightarrow> searched (r, g, b) (pixelAt data w x y) \<Longrightarrow>
               \<not> lessThanBest (dist64 (pixelAt data w x y) (r, g, b)) (Some d)
               \<and> (rowMajorBefore (x, y) (bx, by) \<longrightarrow>
                    lessThanBest (Some d) (dist64 (pixelAt data w x y) (r, g, b)))"
    by (auto simp: bestSoFar_Some)
  from mn[OF sc0 se0] d0 have "\<not> 0 < d" by simp
  with dist64_nonneg[OF dd] have "d = 0" by simp
  with dd have px: "pixelAt data w bx by = (r, g, b)" by (simp add: dist64_zero_iff)
  have "pixelAt data w x y \<noteq> (r, g, b)" if "x < w" and "rowMajorBefore (x, y) (bx, by)" for x y
  proof
    assume eq: "pixelAt data w x y = (r, g, b)"
    then have z: "dist64 (pixelAt data w x y) (r, g, b) = Some 0" by (simp only: dist64_zero_iff)
    have "scanned w 0 h x y" using scanned_before[OF sc that] .
    from mn[OF this] that(2) have "lessThanBest (Some d) (dist64 (pixelAt data w x y) (r, g, b))"
      unfolding eq by (simp only: searched_self simp_thms)
    then show False unfolding z \<open>d = 0\<close> by simp
  qed
  with sc px show ?thesis by (simp add: scanned_def)
qed

lemma search_overflow_stays:
  assumes big: "2 ^ 600 \<le> \<bar>r\<bar>"
    and bytes: "\<And>x y. x < width st \<Longrightarrow> y < height st \<Longrightarrow>
                 0 \<le> fst (pixelAt (canvas st) (width st) x y) \<and> fst (pixelAt (canvas st) (width st) x y) \<le> 255"
  shows "loupe_x (syncLoupeToColor r g b st) = 0 \<and> loupe_y (syncLoupeToColor r g b st) = 0"
proof -
  obtain bx "by" bd where res: "scanRows (canvas st) (width st) (height st) r g b 0 (0, 0, None) = (bx, by, bd)"
    by (cases "scanRows (canvas st) (width st) (height st) r g b 0 (0, 0, None)")
  have inv: "bestSoFar (canvas st) (width st) (r, g, b) 0 (height st) (bx, by, bd)"
    using scanRows_start[of "canvas st" "width st" r g b "height st"] res by simp
  have "bx = 0 \<and> by = 0"
  proof (cases bd)
    case None
    with inv show ?thesis by (simp add: bestSoFar_None)
  next
    case (Some d)
    with inv have sc: "scanned (width st) 0 (height st) bx by"
      and d: "dist64 (pixelAt (canvas st) (width st) bx by) (r, g, b) = Some d"
      by (simp_all add: bestSoFar_Some)
    obtain pr pg pb where p: "pixelAt (canvas st) (width st) bx by = (pr, pg, pb)"
      by (cases "pixelAt (canvas st) (width st) bx by")
    from sc bytes[of bx "by"] p have "0 \<le> pr" "pr \<le> 255" by (simp_all add: scanned_def)
    from dist64_overflow[OF big this] d p show ?thesis by simp
  qed
  with syncLoupeToColor_loupe[OF res] show ?thesis by simp
qed

lemma search_gray:
  assumes gray: "r = g" "g = b"
    and origin: "0 < width st" "0 < height st" "isGrayColor (pixelAt (canvas st) (width st) 0 0)"
  shows "isGrayColor (getColorAt st (loupe_x (syncLoupeToColor r g b st)) (loupe_y (syncLoupeToColor r g b st)))"
proof -
  obtain bx "by" bd where res: "scanRows (canvas st) (width st) (height st) r g b 0 (0, 0, None) = (bx, by, bd)"
    by (cases "scanRows (canvas st) (width st) (height st) r g b 0 (0, 0, None)")
  have inv: "bestSoFar (canvas st) (width st) (r, g, b) 0 (height st) (bx, by, bd)"
    using scanRows_start[of "canvas st" "width st" r g b "height st"] res by simp
  have "bx < width st \<and> by < height st \<and> isGrayColor (pixelAt (canvas st) (width st) bx by)"
  proof (cases bd)
    case None
    with inv have "bx = 0" "by = 0" by (simp_all add: bestSoFar_None)
    with origin show ?thesis by simp
  next
    case (Some d)
    with inv have "scanned (width st) 0 (height st) bx by" "searched (r, g, b) (pixelAt (canvas st) (width st) bx by)"
      by (simp_all add: bestSoFar_Some)
    then show ?thesis using gray by (simp add: scanned_def searched_def)
  qed
  with syncLoupeToColor_loupe[OF res] show ?thesis by (simp add: getColorAt_pixelAt)
qed

subsection \<open>The ring\<close>

lemma exampleStroke_byte:
  assumes "x < w" "y < h" "c < 4"
  shows "exampleStroke cx cy sz w h data ((y * w + x) * 4 + c) =
     (if (sz - 1) * (sz - 1) \<le> (of_nat x + 1 / 2 - cx) * (of_nat x + 1 / 2 - cx)
                                 + (of_nat y + 1 / 2 - cy) * (of_nat y + 1 / 2 - cy)
         \<and> (of_nat x + 1 / 2 - cx) * (of_nat x + 1 / 2 - cx)
             + (of_nat y + 1 / 2 - cy) * (of_nat y + 1 / 2 - cy) \<le> (sz + 1) * (sz + 1)
      then 255 else data ((y * w + x) * 4 + c))"
proof -
  have "w \<noteq> 0" using assms(1) by simp
  then show ?thesis
    using assms(2) unfolding exampleStroke_def Let_def pixel_index[OF assms(1,3)] by simp
qed

lemma exampleStroke_pixel:
  assumes "x < w" "y < h"
  shows "pixelAt (exampleStroke cx cy sz w h data) w x y =
     (if (sz - 1) * (sz - 1) \<le> (of_nat x + 1 / 2 - cx) * (of_nat x + 1 / 2 - cx)
                                 + (of_nat y + 1 / 2 - cy) * (of_nat y + 1 / 2 - cy)
         \<and> (of_nat x + 1 / 2 - cx) * (of_nat x + 1 / 2 - cx)
             + (of_nat y + 1 / 2 - cy) * (of_nat y + 1 / 2 - cy) \<le> (sz + 1) * (sz + 1)
      then (255, 255, 255) else pixelAt data w x y)"
  using exampleStroke_byte[OF assms, of 0 cx cy sz data] exampleStroke_byte[OF assms, of 1 cx cy sz data]
        exampleStroke_byte[OF assms, of 2 cx cy sz data]
  by (simp add: pixelAt_def)

lemma square_between:
  fixes a c :: rat
  shows "max 0 (max (a - c) (c - (a + 1))) * max 0 (max (a - c) (c - (a + 1))) \<le> (a + 1 / 2 - c) * (a + 1 / 2 - c)"
    and "(a + 1 / 2 - c) * (a + 1 / 2 - c) \<le> max \<bar>c - a\<bar> \<bar>c - (a + 1)\<bar> * max \<bar>c - a\<bar> \<bar>c - (a + 1)\<bar>"
proof -
  let ?n = "max 0 (max (a - c) (c - (a + 1)))" and ?m = "a + 1 / 2 - c" and ?f = "max \<bar>c - a\<bar> \<bar>c - (a + 1)\<bar>"
  have n: "0 \<le> ?n" "?n \<le> \<bar>?m\<bar>" and f: "\<bar>?m\<bar> \<le> ?f"
    by (simp_all add: max_def abs_if)
  have "?n * ?n \<le> \<bar>?m\<bar> * \<bar>?m\<bar>" using n by (intro mult_mono) simp_all
  then show "?n * ?n \<le> ?m * ?m" by simp
  have "\<bar>?m\<bar> * \<bar>?m\<bar> \<le> ?f * ?f" using f by (intro mult_mono) simp_all
  then show "?m * ?m \<le> ?f * ?f" by simp
qed

lemma centre_between:
  "nearestSq cx cy x y \<le> (of_nat x + 1 / 2 - cx) * (of_nat x + 1 / 2 - cx)
                          + (of_nat y + 1 / 2 - cy) * (of_nat y + 1 / 2 - cy)"
  "(of_nat x + 1 / 2 - cx) * (of_nat x + 1 / 2 - cx) + (of_nat y + 1 / 2 - cy) * (of_nat y + 1 / 2 - cy)
     \<le> farthestSq cx cy x y"
  unfolding nearestSq_def farthestSq_def Let_def
  using square_between[of "of_nat x" cx] square_between[of "of_nat y" cy]
  by linarith+

lemma exampleStroke_leavesOutside: "leavesOutside exampleStroke"
  unfolding leavesOutside_def
proof (intro allI impI)
  fix cx cy sz :: rat and w h :: nat and data :: "nat \<Rightarrow> int" and x y :: nat
  assume a: "x < w \<and> y < h \<and> outsideRing cx cy sz x y"
  define onLine where "onLine \<longleftrightarrow>
     (sz - 1) * (sz - 1) \<le> (of_nat x + 1 / 2 - cx) * (of_nat x + 1 / 2 - cx)
                                 + (of_nat y + 1 / 2 - cy) * (of_nat y + 1 / 2 - cy)
         \<and> (of_nat x + 1 / 2 - cx) * (of_nat x + 1 / 2 - cx)
             + (of_nat y + 1 / 2 - cy) * (of_nat y + 1 / 2 - cy) \<le> (sz + 1) * (sz + 1)"
  have px: "pixelAt (exampleStroke cx cy sz w h data) w x y
            = (if onLine then (255, 255, 255) else pixelAt data w x y)"
    unfolding onLine_def using a by (intro exampleStroke_pixel) simp_all
  from a centre_between[where cx = cx and cy = cy and x = x and y = y]
  have "\<not> onLine"
    unfolding outsideRing_def onLine_def by linarith
  with px show "pixelAt (exampleStroke cx cy sz w h data) w x y = pixelAt data w x y"
    by simp
qed

lemma exampleStroke_paintsInside: "paintsInside exampleStroke"
  unfolding paintsInside_def
proof (intro allI impI)
  fix cx cy sz :: rat and w h :: nat and data :: "nat \<Rightarrow> int" and x y :: nat
  assume a: "x < w \<and> y < h \<and> insideRing cx cy sz x y"
  define onLine where "onLine \<longleftrightarrow>
     (sz - 1) * (sz - 1) \<le> (of_nat x + 1 / 2 - cx) * (of_nat x + 1 / 2 - cx)
                                 + (of_nat y + 1 / 2 - cy) * (of_nat y + 1 / 2 - cy)
         \<and> (of_nat x + 1 / 2 - cx) * (of_nat x + 1 / 2 - cx)
             + (of_nat y + 1 / 2 - cy) * (of_nat y + 1 / 2 - cy) \<le> (sz + 1) * (sz + 1)"
  have px: "pixelAt (exampleStroke cx cy sz w h data) w x y
            = (if onLine then (255, 255, 255) else pixelAt data w x y)"
    unfolding onLine_def using a by (intro exampleStroke_pixel) simp_all
  from a centre_between[where cx = cx and cy = cy and x = x and y = y]
  have onLine
    unfolding insideRing_def onLine_def by linarith
  with px show "pixelAt (exampleStroke cx cy sz w h data) w x y = (255, 255, 255)"
    by simp
qed

lemma exampleStroke_keepsGray: "keepsGray exampleStroke"
  unfolding keepsGray_def by (simp add: exampleStroke_pixel)

subsection \<open>Hex strings\<close>

lemma isHexDigit_hexDigits: "isHexDigit c \<longleftrightarrow> c \<in> hexDigits"
  unfolding isHexDigit_def hexDigitValue_def hexDigits_def map_of_eq_None_iff
  by auto

lemma hexDigit_value:
  assumes "c \<in> hexDigits"
  shows "\<exists>v<16. hexDigitValue c = Some v \<and> hexChar v = toLowerCase c"
  using assms unfolding hexDigits_def
  by (auto simp: hexDigitValue_def hexChar_def toLowerCase_def)

lemma natToString16_digit: "n < 16 \<Longrightarrow> natToString16 n = [hexChar n]"
  by (subst natToString16.simps) simp

lemma natToString16_two:
  assumes "0 < a" "a < 16" "b < 16"
  shows "natToString16 (16 * a + b) = [hexChar a, hexChar b]"
proof -
  have "\<not> 16 * a + b < 16" using assms by simp
  moreover have "(16 * a + b) div 16 = a" "(16 * a + b) mod 16 = b" using assms by simp_all
  ultimately show ?thesis
    by (subst natToString16.simps) (simp add: natToString16_digit assms)
qed

lemma channel_roundtrip:
  assumes "a < 16" "b < 16"
  shows "padStart2 (toString16 (16 * int a + int b)) = [hexChar a, hexChar b]"
proof -
  have eq: "toString16 (16 * int a + int b) = natToString16 (16 * a + b)"
    by (simp add: toString16_def nat_add_distrib nat_mult_distrib)
  show ?thesis
  proof (cases "a = 0")
    case True
    then have "natToString16 (16 * a + b) = [hexChar b]"
      using assms by (simp add: natToString16_digit)
    moreover have "hexChar 0 = CHR ''0''" by (simp add: hexChar_def)
    ultimately show ?thesis using True unfolding eq by (simp add: padStart2_def)
  next
    case False
    then have "natToString16 (16 * a + b) = [hexChar a, hexChar b]"
      using assms by (simp add: natToString16_two)
    then show ?thesis unfolding eq by (simp add: padStart2_def)
  qed
qed

lemma parseInt16_two:
  assumes "hexDigitValue c1 = Some a" "hexDigitValue c2 = Some b"
  shows "parseInt16 [c1, c2] = Some (16 * int a + int b)"
  using assms by (simp add: parseInt16_def isHexDigit_def)

lemma pair_roundtrip:
  assumes "c1 \<in> hexDigits" "c2 \<in> hexDigits"
  shows "\<exists>v. parseInt16 [c1, c2] = Some v \<and> 0 \<le> v \<and> v \<le> 255
             \<and> padStart2 (toString16 v) = [toLowerCase c1, toLowerCase c2]"
proof -
  from hexDigit_value[OF assms(1)] obtain a where a: "a < 16" "hexDigitValue c1 = Some a" "hexChar a = toLowerCase c1"
    by blast
  from hexDigit_value[OF assms(2)] obtain b where b: "b < 16" "hexDigitValue c2 = Some b" "hexChar b = toLowerCase c2"
    by blast
  have "16 * int a + int b \<le> 255" using a(1) b(1) by simp
  then show ?thesis
    using parseInt16_two[OF a(2) b(2)] channel_roundtrip[OF a(1) b(1)] a(3) b(3) by simp
qed

lemma length6:
  assumes "length ds = 6"
  obtains c1 c2 c3 c4 c5 c6 where "ds = [c1, c2, c3, c4, c5, c6]"
  using assms by (auto simp: length_Suc_conv eval_nat_numeral)

lemma hash_not_hexDigit: "CHR ''#'' \<notin> hexDigits"
  by (simp add: hexDigits_def)

lemma hexToRgb_exec_valid: "hexToRgb_exec s \<noteq> None \<longleftrightarrow> validHex6 s"
proof
  assume "hexToRgb_exec s \<noteq> None"
  then show "validHex6 s"
    unfolding hexToRgb_exec_def validHex6_def Let_def
    by (cases s) (auto simp: list_all_iff isHexDigit_hexDigits split: if_splits)
next
  assume "validHex6 s"
  then obtain ds where ds: "length ds = 6" "set ds \<subseteq> hexDigits" and s: "s = ds \<or> s = CHR ''#'' # ds"
    by (auto simp: validHex6_def)
  from ds(1) obtain c cs where dsc: "ds = c # cs" by (cases ds) auto
  with ds(2) hash_not_hexDigit have "c \<noteq> CHR ''#''" by auto
  with s ds dsc show "hexToRgb_exec s \<noteq> None"
    by (auto simp: hexToRgb_exec_def list_all_iff isHexDigit_hexDigits Let_def)
qed

lemma hexToRgb_valid:
  assumes "validHex6 s"
  shows "\<exists>r g b. hexToRgb s = Some (r, g, b) \<and> 0 \<le> r \<and> r \<le> 255 \<and> 0 \<le> g \<and> g \<le> 255 \<and> 0 \<le> b \<and> b \<le> 255
           \<and> rgbToHex r g b = normalizeHex s"
proof -
  from assms obtain ds where ds: "length ds = 6" "set ds \<subseteq> hexDigits" and s: "s = ds \<or> s = CHR ''#'' # ds"
    by (auto simp: validHex6_def)
  from ds(1) obtain c1 c2 c3 c4 c5 c6 where l: "ds = [c1, c2, c3, c4, c5, c6]" by (rule length6)
  with ds(2) have in6: "c1 \<in> hexDigits" "c2 \<in> hexDigits" "c3 \<in> hexDigits" "c4 \<in> hexDigits" "c5 \<in> hexDigits" "c6 \<in> hexDigits"
    by simp_all
  with hash_not_hexDigit have c1: "c1 \<noteq> CHR ''#''" by auto
  have ex: "hexToRgb_exec s = Some ([c1, c2], [c3, c4], [c5, c6])"
    using s l c1 in6 by (auto simp: hexToRgb_exec_def isHexDigit_hexDigits)
  have norm: "normalizeHex s = CHR ''#'' # map toLowerCase ds"
    using s l c1 by (auto simp: normalizeHex_def)
  from pair_roundtrip[OF in6(1,2)] obtain r where r: "parseInt16 [c1, c2] = Some r" "0 \<le> r" "r \<le> 255"
      "padStart2 (toString16 r) = [toLowerCase c1, toLowerCase c2]" by blast
  from pair_roundtrip[OF in6(3,4)] obtain g where g: "parseInt16 [c3, c4] = Some g" "0 \<le> g" "g \<le> 255"
      "padStart2 (toString16 g) = [toLowerCase c3, toLowerCase c4]" by blast
  from pair_roundtrip[OF in6(5,6)] obtain b where b: "parseInt16 [c5, c6] = Some b" "0 \<le> b" "b \<le> 255"
      "padStart2 (toString16 b) = [toLowerCase c5, toLowerCase c6]" by blast
  have "hexToRgb s = Some (r, g, b)"
    using ex r(1) g(1) b(1) by (simp add: hexToRgb_def)
  moreover have "rgbToHex r g b = normalizeHex s"
    using r(4) g(4) b(4) norm l by (simp add: rgbToHex_def)
  ultimately show ?thesis using r g b by blast
qed

lemma hexToRgb_None_iff: "hexToRgb s = None \<longleftrightarrow> \<not> validHex6 s"
proof
  assume "hexToRgb s = None"
  then show "\<not> validHex6 s" using hexToRgb_valid[of s] by auto
next
  assume "\<not> validHex6 s"
  then have "hexToRgb_exec s = None" using hexToRgb_exec_valid[of s] by blast
  then show "hexToRgb s = None" by (simp add: hexToRgb_def)
qed

lemma handleHexInput_test_valid: "handleHexInput_test s \<longleftrightarrow> validHashHex6 s"
  unfolding handleHexInput_test_def validHashHex6_def
  by (cases s) (auto simp: list_all_iff isHexDigit_hexDigits)

lemma validHashHex6_validHex6: "validHashHex6 s \<Longrightarrow> validHex6 s"
  by (auto simp: validHashHex6_def validHex6_def)

subsection \<open>Steps of the entry points\<close>

lemma updateColorFields_fields [simp]:
  "width (updateColorFields r g b st) = width st"
  "height (updateColorFields r g b st) = height st"
  "hue (updateColorFields r g b st) = hue st"
  "loupe_x (updateColorFields r g b st) = loupe_x st"
  "loupe_y (updateColorFields r g b st) = loupe_y st"
  "canvas (updateColorFields r g b st) = canvas st"
  "rgbInputs (updateColorFields r g b st) = (Some r, Some g, Some b)"
  "hexInput (updateColorFields r g b st) = rgbToHex r g b"
  "emitted (updateColorFields r g b st) = emitted st"
  "onColorChangeCallback (updateColorFields r g b st) = onColorChangeCallback st"
  "isMouseDown (updateColorFields r g b st) = isMouseDown st"
  "draggingHue (updateColorFields r g b st) = draggingHue st"
  "selectedColor (updateColorFields r g b st) = selectedColor st"
  "ctx_stroke (updateColorFields r g b st) = ctx_stroke st"
  by (simp_all add: updateColorFields_def)

lemma syncHueWithRgb_fields [simp]:
  "width (syncHueWithRgb r g b st) = width st"
  "height (syncHueWithRgb r g b st) = height st"
  "loupe_x (syncHueWithRgb r g b st) = loupe_x st"
  "loupe_y (syncHueWithRgb r g b st) = loupe_y st"
  "canvas (syncHueWithRgb r g b st) = canvas st"
  "rgbInputs (syncHueWithRgb r g b st) = rgbInputs st"
  "hexInput (syncHueWithRgb r g b st) = hexInput st"
  "emitted (syncHueWithRgb r g b st) = emitted st"
  "onColorChangeCallback (syncHueWithRgb r g b st) = onColorChangeCallback st"
  "isMouseDown (syncHueWithRgb r g b st) = isMouseDown st"
  "draggingHue (syncHueWithRgb r g b st) = draggingHue st"
  "selectedColor (syncHueWithRgb r g b st) = selectedColor st"
  "ctx_stroke (syncHueWithRgb r g b st) = ctx_stroke st"
  by (simp_all add: syncHueWithRgb_def Let_def split: prod.splits)

lemma syncHueWithRgb_hue:
  "hue (syncHueWithRgb r g b st) =
     (if 10 \<le> max r (max g b) - min r (min g b)
      then Math_round (fl (fst (rgbToHsl r g b) * 360)) else hue st)"
  by (simp add: syncHueWithRgb_def Let_def split: prod.splits)

lemma syncHueWithRgb_hueRule: "hueRule (hue st) (r, g, b) (hue (syncHueWithRgb r g b st))"
  by (simp add: syncHueWithRgb_hue)

lemma fireColorChange_fields [simp]:
  "width (fireColorChange c st) = width st"
  "height (fireColorChange c st) = height st"
  "hue (fireColorChange c st) = hue st"
  "loupe_x (fireColorChange c st) = loupe_x st"
  "loupe_y (fireColorChange c st) = loupe_y st"
  "canvas (fireColorChange c st) = canvas st"
  "rgbInputs (fireColorChange c st) = rgbInputs st"
  "hexInput (fireColorChange c st) = hexInput st"
  "onColorChangeCallback (fireColorChange c st) = onColorChangeCallback st"
  "isMouseDown (fireColorChange c st) = isMouseDown st"
  "draggingHue (fireColorChange c st) = draggingHue st"
  "selectedColor (fireColorChange c st) = selectedColor st"
  "ctx_stroke (fireColorChange c st) = ctx_stroke st"
  by (simp_all add: fireColorChange_def Let_def split: prod.splits)

lemma fireColorChange_emitted:
  "emitted (fireColorChange c st) = emitted st @ notification (onColorChangeCallback st) c"
  by (simp add: fireColorChange_def notification_def Let_def split: prod.splits)

lemma syncLoupeToColor_fields [simp]:
  "width (syncLoupeToColor r g b st) = width st"
  "height (syncLoupeToColor r g b st) = height st"
  "hue (syncLoupeToColor r g b st) = hue st"
  "rgbInputs (syncLoupeToColor r g b st) = rgbInputs st"
  "hexInput (syncLoupeToColor r g b st) = hexInput st"
  "emitted (syncLoupeToColor r g b st) = emitted st"
  "onColorChangeCallback (syncLoupeToColor r g b st) = onColorChangeCallback st"
  "isMouseDown (syncLoupeToColor r g b st) = isMouseDown st"
  "draggingHue (syncLoupeToColor r g b st) = draggingHue st"
  "selectedColor (syncLoupeToColor r g b st) = selectedColor st"
  "ctx_stroke (syncLoupeToColor r g b st) = ctx_stroke st"
  by (simp_all add: syncLoupeToColor_def split: prod.splits)

lemma canonical_fields:
  "rgbInputs st = (Some r, Some g, Some b) \<Longrightarrow> canonical st = Some (r, g, b)"
  by (simp add: canonical_def)

lemma notifiedOnceI:
  assumes "rgbInputs pre = (Some r, Some g, Some b)" and "hexInput pre = rgbToHex r g b"
    and "emitted pre = emitted st" and "onColorChangeCallback pre = onColorChangeCallback st"
  shows "notifiedOnce st (fireColorChange (r, g, b) pre) []"
  unfolding notifiedOnce_def
  using assms
  by (intro exI[of _ "(r, g, b)"] exI[of _ pre]) (simp add: canonical_def fireColorChange_emitted)

lemma handleRgbInput_accepted:
  assumes "rgbInputs st = (Some r, Some g, Some b)"
  shows "handleRgbInput st = fireColorChange (r, g, b) (committed r g b st)"
  using assms by (simp add: handleRgbInput_def committed_def Let_def)

lemma handleRgbInput_rejected:
  assumes "fst (rgbInputs st) = None \<or> fst (snd (rgbInputs st)) = None \<or> snd (snd (rgbInputs st)) = None"
  shows "handleRgbInput st = st"
  using assms by (auto simp: handleRgbInput_def split: prod.splits option.splits)

lemma handleHexInput_accepted:
  assumes "handleHexInput_test (hexInput st)"
  shows "\<exists>r g b. hexToRgb (hexInput st) = Some (r, g, b)
           \<and> handleHexInput st = fireColorChange (r, g, b) (committed r g b st)"
proof -
  from assms have "validHex6 (hexInput st)"
    by (simp add: handleHexInput_test_valid validHashHex6_validHex6)
  from hexToRgb_valid[OF this] obtain r g b where "hexToRgb (hexInput st) = Some (r, g, b)" by blast
  with assms show ?thesis by (simp add: handleHexInput_def committed_def Let_def)
qed

lemma handleHexInput_rejected:
  "\<not> handleHexInput_test (hexInput st) \<Longrightarrow> handleHexInput st = st"
  by (simp add: handleHexInput_def)

lemma committed_fields [simp]:
  "rgbInputs (committed r g b st) = (Some r, Some g, Some b)"
  "hexInput (committed r g b st) = rgbToHex r g b"
  "emitted (committed r g b st) = emitted st"
  "onColorChangeCallback (committed r g b st) = onColorChangeCallback st"
  "hue (committed r g b st) = hue (syncHueWithRgb r g b st)"
  "width (committed r g b st) = width st"
  "height (committed r g b st) = height st"
  "ctx_stroke (committed r g b st) = ctx_stroke st"
  by (simp_all add: committed_def Let_def syncHueWithRgb_hue)

lemma clamp_accepts:
  fixes v :: rat
  assumes "0 < n"
  shows "\<not> (max 0 (min (of_nat n - 1) v) < 0) \<and> \<not> (of_nat n \<le> max 0 (min (of_nat n - 1) v))"
    and "0 \<le> max 0 (min (of_nat n - 1) v) \<and> max 0 (min (of_nat n - 1) v) \<le> of_nat n - 1"
  using assms by (auto simp: max_def min_def)

lemma updateLoupeFromEvent_accepted:
  assumes "0 < width st" "0 < height st"
    and "getColorAt (sampled e st) (loupe_x (sampled e st)) (loupe_y (sampled e st)) = (r, g, b)"
  shows "updateLoupeFromEvent e sync st =
     fireColorChange (r, g, b)
       (if sync then syncHueWithRgb r g b (updateColorFields r g b (sampled e st))
        else updateColorFields r g b (sampled e st))"
  using assms clamp_accepts(1)[OF assms(1)] clamp_accepts(1)[OF assms(2)]
  by (simp add: updateLoupeFromEvent_def sampled_def clampedX_def clampedY_def Let_def)

lemma sampled_fields [simp]:
  "hue (sampled e st) = hue st"
  "loupe_x (sampled e st) = clampedX e st"
  "loupe_y (sampled e st) = clampedY e st"
  "isMouseDown (sampled e st) = isMouseDown st"
  "draggingHue (sampled e st) = draggingHue st"
  "width (sampled e st) = width st"
  "height (sampled e st) = height st"
  "emitted (sampled e st) = emitted st"
  "onColorChangeCallback (sampled e st) = onColorChangeCallback st"
  "ctx_stroke (sampled e st) = ctx_stroke st"
  by (simp_all add: sampled_def)

lemma updateHueFromEvent_eq:
  assumes "getColorAt (renderCanvasWithHue (hueFromBar e (width st)) (st\<lparr>hue := hueFromBar e (width st)\<rparr>))
             (loupe_x st) (loupe_y st) = (r, g, b)"
  shows "updateHueFromEvent e st =
     fireColorChange (r, g, b)
       (updateColorFields r g b
          (renderCanvasWithHue (hueFromBar e (width st)) (st\<lparr>hue := hueFromBar e (width st)\<rparr>)))"
  using assms by (simp add: updateHueFromEvent_def hueFromBar_def Let_def)

subsection \<open>Entry points\<close>

lemma pixelAt_rendered:
  assumes "leavesOutside (ctx_stroke st)" "x < width st" "y < height st"
    and "outsideRing (loupe_x st) (loupe_y st) 14 x y"
  shows "pixelAt (canvas (renderCanvasWithHue hu st)) (width st) x y = planePixel hu (width st) (height st) x y"
proof -
  from assms have "pixelAt (canvas (renderCanvasWithHue hu st)) (width st) x y
        = pixelAt (planeImageData hu (width st) (height st)) (width st) x y"
    unfolding canvas_rendered leavesOutside_def by blast
  with assms(2,3) show ?thesis by (simp add: pixelAt_planeImageData)
qed

lemma centre_outsideRing:
  assumes "0 \<le> cx" "0 \<le> cy"
  shows "outsideRing cx cy 14 (nat \<lfloor>cx\<rfloor>) (nat \<lfloor>cy\<rfloor>)"
proof -
  have le1: "max \<bar>c - of_nat (nat \<lfloor>c\<rfloor>)\<bar> \<bar>c - (of_nat (nat \<lfloor>c\<rfloor>) + 1)\<bar> \<le> 1"
       and ge0: "0 \<le> max \<bar>c - of_nat (nat \<lfloor>c\<rfloor>)\<bar> \<bar>c - (of_nat (nat \<lfloor>c\<rfloor>) + 1)\<bar>"
    if "0 \<le> c" for c :: rat
  proof -
    define f :: rat where "f = of_int \<lfloor>c\<rfloor>"
    from that have eq: "rat_of_nat (nat \<lfloor>c\<rfloor>) = f" by (simp add: f_def)
    have "f \<le> c" "c < f + 1" unfolding f_def by linarith+
    then show "max \<bar>c - of_nat (nat \<lfloor>c\<rfloor>)\<bar> \<bar>c - (of_nat (nat \<lfloor>c\<rfloor>) + 1)\<bar> \<le> 1"
      unfolding eq by (simp add: max_def abs_if)
    show "0 \<le> max \<bar>c - of_nat (nat \<lfloor>c\<rfloor>)\<bar> \<bar>c - (of_nat (nat \<lfloor>c\<rfloor>) + 1)\<bar>"
      by (simp add: le_max_iff_disj)
  qed
  have sq: "d * d \<le> 1" if "0 \<le> d" "d \<le> 1" for d :: rat
    using mult_mono[OF that(2) that(2)] that by simp
  have "farthestSq cx cy (nat \<lfloor>cx\<rfloor>) (nat \<lfloor>cy\<rfloor>) \<le> 2"
    unfolding farthestSq_def Let_def
    using sq[OF ge0[OF assms(1)] le1[OF assms(1)]] sq[OF ge0[OF assms(2)] le1[OF assms(2)]]
    by linarith
  then show ?thesis by (simp add: outsideRing_def)
qed

lemma getColorAt_inside:
  assumes "0 \<le> x" "x < of_nat (width st)" "0 \<le> y" "y < of_nat (height st)"
  shows "getColorAt st x y = pixelAt (canvas st) (width st) (nat \<lfloor>x\<rfloor>) (nat \<lfloor>y\<rfloor>)"
proof -
  have "0 \<le> \<lfloor>x\<rfloor>" "\<lfloor>x\<rfloor> < int (width st)" "0 \<le> \<lfloor>y\<rfloor>" "\<lfloor>y\<rfloor> < int (height st)"
    using assms by (simp_all add: floor_less_iff)
  then show ?thesis
    by (simp add: getColorAt_def pixelAt_def Math_floor_def Let_def)
qed

lemma getColorAt_rendered:
  assumes "leavesOutside (ctx_stroke st)"
    and "loupe_x st = x" "loupe_y st = y"
    and "0 \<le> x" "x < of_nat (width st)" "0 \<le> y" "y < of_nat (height st)"
  shows "getColorAt (renderCanvasWithHue hu st) x y
         = planePixel hu (width st) (height st) (nat \<lfloor>x\<rfloor>) (nat \<lfloor>y\<rfloor>)"
proof -
  have "0 \<le> \<lfloor>x\<rfloor>" "\<lfloor>x\<rfloor> < int (width st)" "0 \<le> \<lfloor>y\<rfloor>" "\<lfloor>y\<rfloor> < int (height st)"
    using assms by (simp_all add: floor_less_iff)
  then have "nat \<lfloor>x\<rfloor> < width st" "nat \<lfloor>y\<rfloor> < height st" by linarith+
  from pixelAt_rendered[OF assms(1) this, of hu] centre_outsideRing[OF assms(4,6)]
       getColorAt_inside[of x "renderCanvasWithHue hu st" y] assms
  show ?thesis by simp
qed

lemma clamped_bounds:
  assumes "0 < width st" "0 < height st"
  shows "0 \<le> clampedX e st" "clampedX e st < of_nat (width st)" "clampedX e st \<le> of_nat (width st) - 1"
        "0 \<le> clampedY e st" "clampedY e st < of_nat (height st)" "clampedY e st \<le> of_nat (height st) - 1"
  using assms by (auto simp: clampedX_def clampedY_def max_def min_def)

lemma sampled_color:
  assumes "leavesOutside (ctx_stroke st)" "0 < width st" "0 < height st"
  shows "getColorAt (sampled e st) (clampedX e st) (clampedY e st)
         = planePixel (hue st) (width st) (height st) (nat \<lfloor>clampedX e st\<rfloor>) (nat \<lfloor>clampedY e st\<rfloor>)"
  unfolding sampled_def
  using getColorAt_rendered[of "st\<lparr>loupe_x := clampedX e st, loupe_y := clampedY e st\<rparr>"
          "clampedX e st" "clampedY e st" "hue st"]
        clamped_bounds[OF assms(2,3), of e] assms(1)
  by simp

lemma clamped_isMouseDown [simp]:
  "clampedX e (st\<lparr>isMouseDown := v\<rparr>) = clampedX e st"
  "clampedY e (st\<lparr>isMouseDown := v\<rparr>) = clampedY e st"
  by (simp_all add: clampedX_def clampedY_def)

lemma onMouseDown_eq:
  assumes "leavesOutside (ctx_stroke st)" "0 < width st" "0 < height st"
    and "planePixel (hue st) (width st) (height st) (nat \<lfloor>clampedX e st\<rfloor>) (nat \<lfloor>clampedY e st\<rfloor>) = (r, g, b)"
  shows "onMouseDown e st =
     fireColorChange (r, g, b)
       (syncHueWithRgb r g b (updateColorFields r g b (sampled e (st\<lparr>isMouseDown := True\<rparr>))))"
proof -
  let ?st = "st\<lparr>isMouseDown := True\<rparr>"
  have "getColorAt (sampled e ?st) (loupe_x (sampled e ?st)) (loupe_y (sampled e ?st)) = (r, g, b)"
    using sampled_color[of ?st e] assms by simp
  from updateLoupeFromEvent_accepted[OF _ _ this, of True] assms(2,3)
  show ?thesis by (simp add: onMouseDown_def)
qed

lemma onMouseMove_eq:
  assumes "leavesOutside (ctx_stroke st)" "isMouseDown st" "0 < width st" "0 < height st"
    and "planePixel (hue st) (width st) (height st) (nat \<lfloor>clampedX e st\<rfloor>) (nat \<lfloor>clampedY e st\<rfloor>) = (r, g, b)"
  shows "onMouseMove e st = fireColorChange (r, g, b) (updateColorFields r g b (sampled e st))"
proof -
  have "getColorAt (sampled e st) (loupe_x (sampled e st)) (loupe_y (sampled e st)) = (r, g, b)"
    using sampled_color[of st e] assms by simp
  from updateLoupeFromEvent_accepted[OF assms(3,4) this, of False] assms(2)
  show ?thesis by (simp add: onMouseMove_def)
qed

lemma onMouseMove_idle: "\<not> isMouseDown st \<Longrightarrow> onMouseMove e st = st"
  by (simp add: onMouseMove_def)

lemma updateLoupeFromEvent_hue_drag: "hue (updateLoupeFromEvent e False st) = hue st"
  by (simp add: updateLoupeFromEvent_def Let_def split: prod.splits)

lemma onMouseMove_hue: "hue (onMouseMove e st) = hue st"
  by (simp add: onMouseMove_def updateLoupeFromEvent_hue_drag)

lemma hueDragged_fields [simp]:
  "hue (hueDragged e st) = hueFromBar e (width st)"
  "width (hueDragged e st) = width st"
  "height (hueDragged e st) = height st"
  "loupe_x (hueDragged e st) = loupe_x st"
  "loupe_y (hueDragged e st) = loupe_y st"
  "emitted (hueDragged e st) = emitted st"
  "onColorChangeCallback (hueDragged e st) = onColorChangeCallback st"
  "isMouseDown (hueDragged e st) = isMouseDown st"
  "draggingHue (hueDragged e st) = draggingHue st"
  "ctx_stroke (hueDragged e st) = ctx_stroke st"
  by (simp_all add: hueDragged_def)

lemma updateHueFromEvent_eq':
  assumes "getColorAt (hueDragged e st) (loupe_x st) (loupe_y st) = (r, g, b)"
  shows "updateHueFromEvent e st = fireColorChange (r, g, b) (updateColorFields r g b (hueDragged e st))"
  using assms updateHueFromEvent_eq[of e st r g b] by (simp add: hueDragged_def)

lemma hueFromBar_draggingHue [simp]: "width (st\<lparr>draggingHue := v\<rparr>) = width st"
  by simp

lemma hueDragged_draggingHue:
  "getColorAt (hueDragged e (st\<lparr>draggingHue := v\<rparr>)) x y = getColorAt (hueDragged e st) x y"
  by (simp add: hueDragged_def getColorAt_def renderCanvasWithHue_def Let_def)

lemma onHueMouseDown_eq:
  assumes "getColorAt (hueDragged e st) (loupe_x st) (loupe_y st) = (r, g, b)"
  shows "onHueMouseDown e st =
     fireColorChange (r, g, b) (updateColorFields r g b (hueDragged e (st\<lparr>draggingHue := True\<rparr>)))"
  unfolding onHueMouseDown_def
  using updateHueFromEvent_eq'[of e "st\<lparr>draggingHue := True\<rparr>" r g b] assms
  by (simp add: hueDragged_draggingHue)

lemma onHueMouseMove_eq:
  assumes "draggingHue st" "getColorAt (hueDragged e st) (loupe_x st) (loupe_y st) = (r, g, b)"
  shows "onHueMouseMove e st = fireColorChange (r, g, b) (updateColorFields r g b (hueDragged e st))"
  using assms updateHueFromEvent_eq'[of e st r g b] by (simp add: onHueMouseMove_def)

lemma cacheElements_fields [simp]:
  "width (cacheElements st) = width st"
  "height (cacheElements st) = height st"
  "hue (cacheElements st) = hue st"
  "loupe_x (cacheElements st) = loupe_x st"
  "loupe_y (cacheElements st) = loupe_y st"
  "emitted (cacheElements st) = emitted st"
  "onColorChangeCallback (cacheElements st) = onColorChangeCallback st"
  "isMouseDown (cacheElements st) = isMouseDown st"
  "draggingHue (cacheElements st) = draggingHue st"
  "selectedColor (cacheElements st) = selectedColor st"
  "ctx_stroke (cacheElements st) = ctx_stroke st"
  by (simp_all add: cacheElements_def)

lemma prepared_fields [simp]:
  "width (prepared st) = width st"
  "height (prepared st) = height st"
  "hue (prepared st) = hue st"
  "loupe_x (prepared st) = loupe_x st"
  "loupe_y (prepared st) = loupe_y st"
  "emitted (prepared st) = emitted st"
  "onColorChangeCallback (prepared st) = onColorChangeCallback st"
  "isMouseDown (prepared st) = isMouseDown st"
  "draggingHue (prepared st) = draggingHue st"
  "selectedColor (prepared st) = selectedColor st"
  "ctx_stroke (prepared st) = ctx_stroke st"
  by (simp_all add: prepared_def)

lemma connectedCallback_seed:
  assumes "selectedColor st = Some (r, g, b)"
  shows "connectedCallback st =
     (fireColorChange (r, g, b)
        (renderCanvasWithHue (hue (syncHueWithRgb r g b (prepared st)))
           (syncHueWithRgb r g b (updateColorFields r g b (prepared st)))))
     \<lparr>emitted := emitted st @ notification (onColorChangeCallback st) (r, g, b) @ [Ready]\<rparr>"
  using assms
  by (simp add: connectedCallback_def updateSelectedColor_def Let_def prepared_def[symmetric]
                fireColorChange_emitted syncHueWithRgb_hue)

lemma connectedCallback_default:
  assumes "selectedColor st = None"
    and "getColorAt (prepared st) (loupe_x st) (loupe_y st) = (r, g, b)"
  shows "connectedCallback st =
     (fireColorChange (r, g, b) (syncHueWithRgb r g b (updateColorFields r g b (prepared st))))
     \<lparr>emitted := emitted st @ notification (onColorChangeCallback st) (r, g, b) @ [Ready]\<rparr>"
  using assms
  by (simp add: connectedCallback_def initializeDefaultColorFromCanvas_def Let_def prepared_def[symmetric]
                fireColorChange_emitted)

subsection \<open>Hex strings of channels out of range\<close>

lemma natToString16_nonempty: "natToString16 n \<noteq> []"
  by (subst natToString16.simps) simp

lemma natToString16_long: "256 \<le> n \<Longrightarrow> 3 \<le> length (natToString16 n)"
proof -
  assume n: "256 \<le> n"
  then have "\<not> n < 16" "\<not> n div 16 < 16" by simp_all
  then have "natToString16 n = natToString16 (n div 16 div 16) @ [hexChar (n div 16 mod 16), hexChar (n mod 16)]"
    by (subst natToString16.simps, subst natToString16.simps) simp
  moreover have "1 \<le> length (natToString16 (n div 16 div 16))"
    using natToString16_nonempty[of "n div 16 div 16"] by (cases "natToString16 (n div 16 div 16)") simp_all
  ultimately show ?thesis by simp
qed

lemma chunk_length: "2 \<le> length (padStart2 (toString16 v))"
  by (simp add: padStart2_def)

lemma chunk_long:
  assumes "255 < v"
  shows "3 \<le> length (padStart2 (toString16 v))"
proof -
  from assms have "256 \<le> nat v" by simp
  from natToString16_long[OF this] assms show ?thesis
    by (simp add: padStart2_def toString16_def)
qed

lemma chunk_minus: "v < 0 \<Longrightarrow> CHR ''-'' \<in> set (padStart2 (toString16 v))"
  by (simp add: padStart2_def toString16_def)

lemma minus_not_hexDigit: "CHR ''-'' \<notin> hexDigits"
  by (simp add: hexDigits_def)

lemma rgbToHex_out_of_range:
  assumes "r < 0 \<or> 255 < r \<or> g < 0 \<or> 255 < g \<or> b < 0 \<or> 255 < b"
  shows "\<not> validHashHex6 (rgbToHex r g b)"
proof
  assume "validHashHex6 (rgbToHex r g b)"
  then have len: "length (padStart2 (toString16 r)) + length (padStart2 (toString16 g))
             + length (padStart2 (toString16 b)) = 6"
    and sub: "set (padStart2 (toString16 r)) \<subseteq> hexDigits" "set (padStart2 (toString16 g)) \<subseteq> hexDigits"
            "set (padStart2 (toString16 b)) \<subseteq> hexDigits"
    by (auto simp: validHashHex6_def rgbToHex_def)
  from assms consider "r < 0" | "g < 0" | "b < 0" | "255 < r" | "255 < g" | "255 < b" by blast
  then show False
  proof cases
    case 1 with chunk_minus[of r] sub(1) minus_not_hexDigit show False by blast
  next
    case 2 with chunk_minus[of g] sub(2) minus_not_hexDigit show False by blast
  next
    case 3 with chunk_minus[of b] sub(3) minus_not_hexDigit show False by blast
  next
    case 4 with chunk_long[of r] chunk_length[of g] chunk_length[of b] len show False by linarith
  next
    case 5 with chunk_long[of g] chunk_length[of r] chunk_length[of b] len show False by linarith
  next
    case 6 with chunk_long[of b] chunk_length[of r] chunk_length[of g] len show False by linarith
  qed
qed

subsection \<open>Evaluations\<close>

lemma fl_values:
  "fl 1 = 1" "fl 255 = 255" "fl 299 = 299" "fl 150 = 150" "fl 31 = 31" "fl 119 = 119" "fl 7 = 7"
  "fl (1 / 2) = 1 / 2" "fl 180 = 180"
  by code_simp+

lemma primary_hue_values:
  "Math_round (fl (fst (rgbToHsl 255 0 0) * 360)) = 0"
  "Math_round (fl (fst (rgbToHsl 0 255 0) * 360)) = 120"
  "Math_round (fl (fst (rgbToHsl 0 0 255) * 360)) = 240"
  by code_simp+

lemma planePixel_top_left:
  assumes "w \<noteq> 1" "h \<noteq> 1"
  shows "planePixel hu w h 0 0 = (255, 255, 255)"
  using assms
  by (simp add: planePixel_def hslToRgb_def fl_values Math_round_def toUint8Clamped_def)

lemma hueFromBar_values:
  "hueFromBar (pointerAt 150 0) 300 = 180"
  "hueFromBar (pointerAt 31 0) 300 = 37"
  by code_simp+

lemma exampleComponent_fields [simp]:
  "width exampleComponent = 300" "height exampleComponent = 150"
  "hue exampleComponent = 0" "loupe_x exampleComponent = 150" "loupe_y exampleComponent = 75"
  "isMouseDown exampleComponent = False" "draggingHue exampleComponent = False"
  "selectedColor exampleComponent = None" "emitted exampleComponent = []"
  "onColorChangeCallback exampleComponent = False"
  by (simp_all add: exampleComponent_def constructor_def)

lemma not_validHex6_ZZZZZZ: "\<not> validHex6 ''ZZZZZZ''"
proof -
  have "hexToRgb ''ZZZZZZ'' = None" by code_simp
  then show ?thesis by (simp add: hexToRgb_None_iff)
qed

lemma validHex6_examples: "validHex6 ''#FFaa0C''" "validHex6 ''00fF7b''" "validHex6 ''ff0000''"
  unfolding validHex6_def
  by (rule exI[of _ "''FFaa0C''"], simp add: hexDigits_def)
     (rule exI[of _ "''00fF7b''"], simp add: hexDigits_def,
      rule exI[of _ "''ff0000''"], simp add: hexDigits_def)

lemma validHashHex6_examples: "validHashHex6 ''#FFaa0C''" "\<not> validHashHex6 ''ff0000''"
  unfolding validHashHex6_def
  by (rule exI[of _ "''FFaa0C''"], simp add: hexDigits_def) simp

lemma editingComponent_fields [simp]:
  "width editingComponent = 300" "height editingComponent = 150" "hue editingComponent = 0"
  "isMouseDown editingComponent" "draggingHue editingComponent"
  "rgbInputs editingComponent = (Some 1, Some 2, Some 3)" "hexInput editingComponent = ''#FFaa0C''"
  by (simp_all add: editingComponent_def)


lemma connectedCallback_cases:
  obtains (seed) r g b where "selectedColor st = Some (r, g, b)"
      "connectedCallback st =
         (fireColorChange (r, g, b)
            (renderCanvasWithHue (hue (syncHueWithRgb r g b (prepared st)))
               (syncHueWithRgb r g b (updateColorFields r g b (prepared st)))))
         \<lparr>emitted := emitted (fireColorChange (r, g, b)
            (renderCanvasWithHue (hue (syncHueWithRgb r g b (prepared st)))
               (syncHueWithRgb r g b (updateColorFields r g b (prepared st))))) @ [Ready]\<rparr>"
  | (default) r g b where "selectedColor st = None"
      "getColorAt (prepared st) (loupe_x st) (loupe_y st) = (r, g, b)"
      "connectedCallback st =
         (fireColorChange (r, g, b) (syncHueWithRgb r g b (updateColorFields r g b (prepared st))))
         \<lparr>emitted := emitted (fireColorChange (r, g, b)
            (syncHueWithRgb r g b (updateColorFields r g b (prepared st)))) @ [Ready]\<rparr>"
proof (cases "selectedColor st")
  case None
  obtain r g b where c: "getColorAt (prepared st) (loupe_x st) (loupe_y st) = (r, g, b)"
    by (cases "getColorAt (prepared st) (loupe_x st) (loupe_y st)")
  with None show ?thesis
    by (intro default[of r g b])
       (simp_all add: connectedCallback_def initializeDefaultColorFromCanvas_def Let_def prepared_def[symmetric])
next
  case (Some c)
  obtain r g b where c: "c = (r, g, b)" by (cases c)
  with Some show ?thesis
    by (intro seed[of r g b])
       (simp_all add: connectedCallback_def updateSelectedColor_def Let_def prepared_def[symmetric] syncHueWithRgb_hue)
qed


lemma connectedCallback_hueRule:
  "\<exists>c. canonical (connectedCallback st) = Some c \<and> hueRule (hue st) c (hue (connectedCallback st))"
proof (cases st rule: connectedCallback_cases)
  case (seed r g b)
  show ?thesis unfolding seed(2)
    by (intro exI[of _ "(r, g, b)"]) (simp add: canonical_def syncHueWithRgb_hue)
next
  case (default r g b)
  show ?thesis unfolding default(3)
    by (intro exI[of _ "(r, g, b)"]) (simp add: canonical_def syncHueWithRgb_hue)
qed

lemma onMouseDown_cases:
  assumes "0 < width st" "0 < height st"
  obtains r g b where
    "onMouseDown e st =
       fireColorChange (r, g, b)
         (syncHueWithRgb r g b (updateColorFields r g b (sampled e (st\<lparr>isMouseDown := True\<rparr>))))"
proof -
  let ?st = "st\<lparr>isMouseDown := True\<rparr>"
  obtain r g b where "getColorAt (sampled e ?st) (loupe_x (sampled e ?st)) (loupe_y (sampled e ?st)) = (r, g, b)"
    by (cases "getColorAt (sampled e ?st) (loupe_x (sampled e ?st)) (loupe_y (sampled e ?st))")
  from updateLoupeFromEvent_accepted[OF _ _ this, of True] assms
  have "onMouseDown e st =
       fireColorChange (r, g, b) (syncHueWithRgb r g b (updateColorFields r g b (sampled e ?st)))"
    by (simp add: onMouseDown_def)
  with that show ?thesis by blast
qed

lemma onMouseMove_cases:
  assumes "isMouseDown st" "0 < width st" "0 < height st"
  obtains r g b where
    "onMouseMove e st = fireColorChange (r, g, b) (updateColorFields r g b (sampled e st))"
proof -
  obtain r g b where "getColorAt (sampled e st) (loupe_x (sampled e st)) (loupe_y (sampled e st)) = (r, g, b)"
    by (cases "getColorAt (sampled e st) (loupe_x (sampled e st)) (loupe_y (sampled e st))")
  from updateLoupeFromEvent_accepted[OF assms(2,3) this, of False] assms(1)
  have "onMouseMove e st = fireColorChange (r, g, b) (updateColorFields r g b (sampled e st))"
    by (simp add: onMouseMove_def)
  with that show ?thesis by blast
qed

lemma onHueMouseDown_cases:
  obtains r g b where
    "onHueMouseDown e st =
       fireColorChange (r, g, b) (updateColorFields r g b (hueDragged e (st\<lparr>draggingHue := True\<rparr>)))"
proof -
  obtain r g b where "getColorAt (hueDragged e st) (loupe_x st) (loupe_y st) = (r, g, b)"
    by (cases "getColorAt (hueDragged e st) (loupe_x st) (loupe_y st)")
  from onHueMouseDown_eq[OF this] that show ?thesis by blast
qed

lemma onHueMouseMove_cases:
  assumes "draggingHue st"
  obtains r g b where
    "onHueMouseMove e st = fireColorChange (r, g, b) (updateColorFields r g b (hueDragged e st))"
proof -
  obtain r g b where "getColorAt (hueDragged e st) (loupe_x st) (loupe_y st) = (r, g, b)"
    by (cases "getColorAt (hueDragged e st) (loupe_x st) (loupe_y st)")
  from onHueMouseMove_eq[OF assms this] that show ?thesis by blast
qed

lemma scan_in_bounds:
  assumes "0 < w" "0 < h" "scanRows data w h r g b 0 (0, 0, None) = (bx, by, bd)"
  shows "bx < w \<and> by < h"
proof -
  have "bestSoFar data w (r, g, b) 0 h (bx, by, bd)"
    using scanRows_start[of data w r g b h] assms(3) by simp
  then show ?thesis
    using assms(1,2) by (cases bd) (auto simp: bestSoFar_None bestSoFar_Some scanned_def)
qed

lemma syncLoupeToColor_in_bounds:
  assumes "0 < width st" "0 < height st"
  shows "positionInBounds (syncLoupeToColor r g b st)"
proof -
  obtain bx "by" bd where res: "scanRows (canvas st) (width st) (height st) r g b 0 (0, 0, None) = (bx, by, bd)"
    by (cases "scanRows (canvas st) (width st) (height st) r g b 0 (0, 0, None)")
  from scan_in_bounds[OF assms res] have "bx < width st" "by < height st" by simp_all
  then have "rat_of_nat bx \<le> of_nat (width st) - 1" "rat_of_nat by \<le> of_nat (height st) - 1"
    by (simp_all add: Suc_leI le_diff_eq flip: of_nat_Suc)
  with syncLoupeToColor_loupe[OF res] show ?thesis
    by (simp add: positionInBounds_def)
qed

lemma positionInBounds_fire [simp]: "positionInBounds (fireColorChange c st) = positionInBounds st"
  by (simp add: positionInBounds_def)

lemma positionInBounds_fields [simp]:
  "positionInBounds (updateColorFields r g b st) = positionInBounds st"
  "positionInBounds (syncHueWithRgb r g b st) = positionInBounds st"
  by (simp_all add: positionInBounds_def)

lemma sampled_in_bounds:
  assumes "0 < width st" "0 < height st"
  shows "positionInBounds (sampled e st)"
  using clamped_bounds[OF assms, of e] by (simp add: positionInBounds_def)

lemma position_in_bounds_after_edit:
  assumes "0 < width st" "0 < height st"
  shows "positionInBounds (onMouseDown e st)"
    and "isMouseDown st \<Longrightarrow> positionInBounds (onMouseMove e st)"
    and "rgbInputs st = (Some r, Some g, Some b) \<Longrightarrow> positionInBounds (handleRgbInput st)"
    and "validHashHex6 (hexInput st) \<Longrightarrow> positionInBounds (handleHexInput st)"
proof -
  obtain r' g' b' where eq: "onMouseDown e st =
       fireColorChange (r', g', b')
         (syncHueWithRgb r' g' b' (updateColorFields r' g' b' (sampled e (st\<lparr>isMouseDown := True\<rparr>))))"
    using onMouseDown_cases[OF assms, of e] by blast
  show "positionInBounds (onMouseDown e st)"
    unfolding eq using sampled_in_bounds[of "st\<lparr>isMouseDown := True\<rparr>" e] assms by simp
next
  assume "isMouseDown st"
  then obtain r' g' b' where eq: "onMouseMove e st = fireColorChange (r', g', b') (updateColorFields r' g' b' (sampled e st))"
    using onMouseMove_cases[of st e] assms by blast
  show "positionInBounds (onMouseMove e st)"
    unfolding eq using sampled_in_bounds[OF assms, of e] by simp
next
  assume "rgbInputs st = (Some r, Some g, Some b)"
  note eq = handleRgbInput_accepted[OF this]
  show "positionInBounds (handleRgbInput st)"
    unfolding eq committed_def Let_def using assms by (simp add: syncLoupeToColor_in_bounds)
next
  assume "validHashHex6 (hexInput st)"
  then have "handleHexInput_test (hexInput st)" by (simp add: handleHexInput_test_valid)
  from handleHexInput_accepted[OF this] obtain r' g' b'
    where eq: "handleHexInput st = fireColorChange (r', g', b') (committed r' g' b' st)" by blast
  show "positionInBounds (handleHexInput st)"
    unfolding eq committed_def Let_def using assms by (simp add: syncLoupeToColor_in_bounds)
qed

lemma constructor_positive:
  "0 < width (constructor ctx w h sel) \<and> 0 < height (constructor ctx w h sel)"
  by (simp add: constructor_def split: option.splits)

lemma size_unchanged:
  "width (onMouseDown e st) = width st \<and> height (onMouseDown e st) = height st"
  "width (onMouseMove e st) = width st \<and> height (onMouseMove e st) = height st"
  "width (onMouseUp st) = width st \<and> height (onMouseUp st) = height st"
  "width (onHueMouseDown e st) = width st \<and> height (onHueMouseDown e st) = height st"
  "width (onHueMouseMove e st) = width st \<and> height (onHueMouseMove e st) = height st"
  "width (onHueMouseUp st) = width st \<and> height (onHueMouseUp st) = height st"
  "width (handleRgbInput st) = width st \<and> height (handleRgbInput st) = height st"
  "width (handleHexInput st) = width st \<and> height (handleHexInput st) = height st"
  "width (connectedCallback st) = width st \<and> height (connectedCallback st) = height st"
  "width (set_onColorChange st) = width st \<and> height (set_onColorChange st) = height st"
  by (simp_all add: onMouseDown_def onMouseMove_def onMouseUp_def onHueMouseDown_def onHueMouseMove_def
        onHueMouseUp_def handleRgbInput_def handleHexInput_def connectedCallback_def set_onColorChange_def
        updateLoupeFromEvent_def updateHueFromEvent_def updateSelectedColor_def
        initializeDefaultColorFromCanvas_def Let_def
      split: prod.splits option.splits)

lemma context_unchanged:
  "ctx_stroke (onMouseDown e st) = ctx_stroke st"
  "ctx_stroke (onMouseMove e st) = ctx_stroke st"
  "ctx_stroke (onMouseUp st) = ctx_stroke st"
  "ctx_stroke (onHueMouseDown e st) = ctx_stroke st"
  "ctx_stroke (onHueMouseMove e st) = ctx_stroke st"
  "ctx_stroke (onHueMouseUp st) = ctx_stroke st"
  "ctx_stroke (handleRgbInput st) = ctx_stroke st"
  "ctx_stroke (handleHexInput st) = ctx_stroke st"
  "ctx_stroke (connectedCallback st) = ctx_stroke st"
  "ctx_stroke (set_onColorChange st) = ctx_stroke st"
  "ctx_stroke (constructor ctx w h sel) = ctx"
  by (simp_all add: onMouseDown_def onMouseMove_def onMouseUp_def onHueMouseDown_def onHueMouseMove_def
        onHueMouseUp_def handleRgbInput_def handleHexInput_def connectedCallback_def set_onColorChange_def
        updateLoupeFromEvent_def updateHueFromEvent_def updateSelectedColor_def
        initializeDefaultColorFromCanvas_def constructor_def Let_def
      split: prod.splits option.splits)

lemma redComponent_fields:
  "width redComponent = 300" "height redComponent = 150" "hue redComponent = 0"
  "loupe_x redComponent = 150" "loupe_y redComponent = 75" "isMouseDown redComponent = False"
proof -
  let ?c = "constructor exampleStroke None None (Some (255, 0, 0))"
  have f: "width ?c = 300" "height ?c = 150" "loupe_x ?c = 150" "loupe_y ?c = 75" "hue ?c = 0"
    "selectedColor ?c = Some (255, 0, 0)" "isMouseDown ?c = False"
    by (simp_all add: constructor_def)
  note eq = connectedCallback_seed[OF f(6)]
  show "width redComponent = 300" "height redComponent = 150" "hue redComponent = 0"
    "loupe_x redComponent = 150" "loupe_y redComponent = 75" "isMouseDown redComponent = False"
    unfolding redComponent_def eq by (simp_all add: f syncHueWithRgb_hue primary_hue_values)
qed

lemma clamped_pointerAt:
  "clampedX (pointerAt x y) st = max 0 (min (of_nat (width st) - 1) (fl x))"
  "clampedY (pointerAt x y) st = max 0 (min (of_nat (height st) - 1) (fl y))"
  by (simp_all add: clampedX_def clampedY_def pointerAt_def)

lemma press_at_corner:
  assumes "width st = 300" "height st = 150" "leavesOutside (ctx_stroke st)"
  shows "onMouseDown (pointerAt 0 0) st =
     fireColorChange (255, 255, 255)
       (syncHueWithRgb 255 255 255 (updateColorFields 255 255 255
          (sampled (pointerAt 0 0) (st\<lparr>isMouseDown := True\<rparr>))))"
proof -
  have cl: "clampedX (pointerAt 0 0) st = 0" "clampedY (pointerAt 0 0) st = 0"
    by (simp_all add: clamped_pointerAt assms)
  have "planePixel (hue st) (width st) (height st)
          (nat \<lfloor>clampedX (pointerAt 0 0) st\<rfloor>) (nat \<lfloor>clampedY (pointerAt 0 0) st\<rfloor>)
        = (255, 255, 255)"
    by (simp add: cl assms planePixel_top_left)
  from onMouseDown_eq[OF assms(3) _ _ this] assms show ?thesis by simp
qed

lemma pressed_at_corner_fields:
  assumes "width st = 300" "height st = 150" "leavesOutside (ctx_stroke st)"
  shows "width (onMouseDown (pointerAt 0 0) st) = 300" "height (onMouseDown (pointerAt 0 0) st) = 150"
    "hue (onMouseDown (pointerAt 0 0) st) = hue st"
    "loupe_x (onMouseDown (pointerAt 0 0) st) = 0" "loupe_y (onMouseDown (pointerAt 0 0) st) = 0"
    "isMouseDown (onMouseDown (pointerAt 0 0) st)"
    "canonical (onMouseDown (pointerAt 0 0) st) = Some (255, 255, 255)"
  unfolding press_at_corner[OF assms]
  by (simp_all add: assms syncHueWithRgb_hue clamped_pointerAt canonical_def)

lemma documentMouseUp_fields [simp]:
  "width (documentMouseUp st) = width st" "height (documentMouseUp st) = height st"
  "hue (documentMouseUp st) = hue st"
  "loupe_x (documentMouseUp st) = loupe_x st" "loupe_y (documentMouseUp st) = loupe_y st"
  "canonical (documentMouseUp st) = canonical st"
  "isMouseDown (documentMouseUp st) = False" "draggingHue (documentMouseUp st) = False"
  "ctx_stroke (documentMouseUp st) = ctx_stroke st"
  by (simp_all add: documentMouseUp_def onMouseUp_def onHueMouseUp_def canonical_def)

lemma example_contexts:
  "ctx_stroke redComponent = exampleStroke" "ctx_stroke releasedCorner = exampleStroke"
  "ctx_stroke hue37Component = exampleStroke" "ctx_stroke pressedCornerHue37 = exampleStroke"
  by (simp_all add: redComponent_def releasedCorner_def pressedCorner_def hue37Component_def
        pressedCornerHue37_def context_unchanged)

lemma example_leavesOutside:
  "leavesOutside (ctx_stroke redComponent)" "leavesOutside (ctx_stroke releasedCorner)"
  "leavesOutside (ctx_stroke hue37Component)" "leavesOutside (ctx_stroke pressedCornerHue37)"
  by (simp_all add: example_contexts exampleStroke_leavesOutside)

lemma releasedCorner_fields:
  "width releasedCorner = 300" "height releasedCorner = 150" "hue releasedCorner = 0"
  "loupe_x releasedCorner = 0" "loupe_y releasedCorner = 0"
  "canonical releasedCorner = Some (255, 255, 255)"
  unfolding releasedCorner_def pressedCorner_def
  by (simp_all add: pressed_at_corner_fields[OF redComponent_fields(1,2) example_leavesOutside(1)]
        redComponent_fields)

lemma hue_drag_at_corner:
  assumes "width st = 300" "height st = 150" "loupe_x st = 0" "loupe_y st = 0"
    and "leavesOutside (ctx_stroke st)"
  shows "onHueMouseDown e st =
     fireColorChange (255, 255, 255)
       (updateColorFields 255 255 255 (hueDragged e (st\<lparr>draggingHue := True\<rparr>)))"
proof -
  have "getColorAt (hueDragged e st) (loupe_x st) (loupe_y st) = (255, 255, 255)"
    unfolding hueDragged_def assms
    using getColorAt_rendered[of "st\<lparr>hue := hueFromBar e 300\<rparr>" 0 0 "hueFromBar e 300"] assms
    by (simp add: planePixel_top_left)
  from onHueMouseDown_eq[OF this] show ?thesis .
qed

lemma hue37Component_fields:
  "width hue37Component = 300" "height hue37Component = 150" "hue hue37Component = 37"
proof -
  obtain r g b where eq: "onHueMouseDown (pointerAt 31 0) redComponent =
       fireColorChange (r, g, b)
         (updateColorFields r g b (hueDragged (pointerAt 31 0) (redComponent\<lparr>draggingHue := True\<rparr>)))"
    by (rule onHueMouseDown_cases)
  show "width hue37Component = 300" "height hue37Component = 150" "hue hue37Component = 37"
    unfolding hue37Component_def eq by (simp_all add: redComponent_fields hueFromBar_values)
qed

lemma pressedCornerHue37_fields:
  "width pressedCornerHue37 = 300" "height pressedCornerHue37 = 150" "hue pressedCornerHue37 = 37"
  "isMouseDown pressedCornerHue37"
  unfolding pressedCornerHue37_def
  by (simp_all add: pressed_at_corner_fields[OF hue37Component_fields(1,2) example_leavesOutside(3)]
        hue37Component_fields)

lemma drag_values:
  "planePixel 37 300 150 119 7 = (248, 244, 238)"
  "Math_round (fl (fst (rgbToHsl 248 244 238) * 360)) = 36"
  by code_simp+

subsection \<open>The plane of hue 0\<close>

text \<open>
  With the hue 0 the three calls of \<open>hue2rgb\<close> take fixed branches: red is \<open>q\<close>, green is
  \<open>fl p\<close> and blue is \<open>p\<close>. On the plane of 300 by 150 pixels a pixel that shows
  (203, 98, 98) bounds \<open>q\<close> and \<open>p\<close>, hence the lightness, hence the row: it is row 61. In
  that row the lightness is known, and the bounds on \<open>q\<close> bound the saturation, hence the
  column: it is 150 or 151.
\<close>

lemma thirds:
  "fl (1 / 3) = 6004799503160661 / 18014398509481984"
  "fl (6004799503160661 / 18014398509481984) = 6004799503160661 / 18014398509481984"
  "fl (1 / 6) = 6004799503160661 / 36028797018963968"
  "fl (2 / 3) = 6004799503160661 / 9007199254740992"
  "fl (- (6004799503160661 / 18014398509481984)) = - (6004799503160661 / 18014398509481984)"
  "fl (12009599006321323 / 18014398509481984) = 3002399751580331 / 4503599627370496"
  by code_simp+

lemma hue2rgb_hue0:
  "hue2rgb p q (fl (fl (1 / 3))) = q"
  "hue2rgb p q 0 = fl p"
  "hue2rgb p q (fl (- fl (1 / 3))) = p"
  by (simp_all add: hue2rgb_def thirds Let_def)

lemma hslToRgb_hue0:
  "hslToRgb 0 s l =
     (if s = 0 then (Math_round (fl (l * 255)), Math_round (fl (l * 255)), Math_round (fl (l * 255)))
      else
        let q = (if l < 1 / 2 then fl (l * fl (1 + s)) else fl (fl (l + s) - fl (l * s)));
            p = fl (fl (2 * l) - q)
        in (Math_round (fl (q * 255)), Math_round (fl (fl p * 255)), Math_round (fl (p * 255))))"
  by (simp add: hslToRgb_def Let_def hue2rgb_hue0)

lemma row61:
  "fl (61 / 149) = 7375022208579873 / 18014398509481984"
  "fl (10639376300902111 / 18014398509481984) = 332480509403191 / 562949953421312"
  by code_simp+

lemma plane_shows_target_only_under_ring:
  assumes "x < 300" "y < 150" and px: "planePixel 0 300 150 x y = (203, 98, 98)"
  shows "y = 61 \<and> (x = 150 \<or> x = 151)"
proof -
  define s where "s = fl (of_nat x / 299)"
  define a where "a = fl (of_nat y / 149)"
  define l where "l = fl (1 - a)"
  define q where "q = (if l < 1 / 2 then fl (l * fl (1 + s)) else fl (fl (l + s) - fl (l * s)))"
  define p where "p = fl (fl (2 * l) - q)"
  have eq: "planePixel 0 300 150 x y =
     (if s = 0
      then (toUint8Clamped (Math_round (fl (l * 255))), toUint8Clamped (Math_round (fl (l * 255))),
            toUint8Clamped (Math_round (fl (l * 255))))
      else (toUint8Clamped (Math_round (fl (q * 255))), toUint8Clamped (Math_round (fl (fl p * 255))),
            toUint8Clamped (Math_round (fl (p * 255)))))"
    by (simp add: planePixel_def hslToRgb_hue0 Let_def s_def a_def l_def q_def p_def)
  from px have s0: "s \<noteq> 0" unfolding eq by auto
  from px s0 have "toUint8Clamped (Math_round (fl (q * 255))) = 203"
    and "toUint8Clamped (Math_round (fl (p * 255))) = 98"
    unfolding eq by simp_all
  then have "Math_round (fl (q * 255)) = 203" "Math_round (fl (p * 255)) = 98"
    by (simp_all add: toUint8Clamped_eq)
  then have r1: "405 / 2 \<le> fl (q * 255)" "fl (q * 255) < 407 / 2"
    and r2: "195 / 2 \<le> fl (p * 255)" "fl (p * 255) < 197 / 2"
    by (simp_all add: Math_round_eq)
  from r1 have "0 < fl (q * 255)" by simp
  note A = fl_pos_range[OF this]
  from r2 have "0 < fl (p * 255)" by simp
  note B = fl_pos_range[OF this]
  have qb: "794117 / 1000000 \<le> q" "q \<le> 798040 / 1000000"
    using A r1 by simp_all
  have pb: "382352 / 1000000 \<le> p" "p \<le> 386276 / 1000000"
    using B r2 by simp_all
  have "0 < fl (fl (2 * l) - q)" using pb(1) by (simp add: p_def[symmetric])
  note D = fl_pos_range[OF this, folded p_def]
  have "0 < fl (2 * l)" using D(1) qb(1) by simp
  note E = fl_pos_range[OF this]
  have lb: "588234 / 1000000 \<le> l" "l \<le> 592159 / 1000000"
    using D E pb qb by simp_all
  have "0 < fl (1 - a)" using lb(1) by (simp add: l_def[symmetric])
  note F = fl_pos_range[OF this, folded l_def]
  have ab: "407840 / 1000000 \<le> a" "a \<le> 411767 / 1000000"
    using F lb by simp_all
  have "0 < fl (of_nat y / 149)" using ab(1) by (simp add: a_def[symmetric])
  note G = fl_pos_range[OF this, folded a_def]
  have "60 < rat_of_nat y" "rat_of_nat y < 62"
    using G ab by simp_all
  then have "60 < y" "y < 62"
    using of_nat_less_iff[where ?'a = rat, of 60 y] of_nat_less_iff[where ?'a = rat, of y 62] by simp_all
  then have y: "y = 61" by simp
  have av: "a = 7375022208579873 / 18014398509481984"
    unfolding a_def y by (simp add: row61)
  have lv: "l = 332480509403191 / 562949953421312"
    unfolding l_def av by (simp add: row61)
  have qv: "q = fl (fl (l + s) - fl (l * s))"
    unfolding q_def by (simp add: lv)
  have sn: "0 \<le> s" unfolding s_def by (simp add: fl_nonneg)
  note S = fl_nonneg_range[of "of_nat x / 299", folded s_def]
  have "0 < fl (fl (l + s) - fl (l * s))" using qb(1) by (simp add: qv[symmetric])
  note H = fl_pos_range[OF this, folded qv]
  have "0 \<le> l + s" "0 \<le> l * s" using sn by (simp_all add: lv)
  note I = fl_nonneg_range[OF this(1)] and J = fl_nonneg_range[OF this(2)]
  have qb': "794931 / 1000000 \<le> q"
    using D E pb lv by simp
  have sb: "49909 / 100000 \<le> s" "s \<le> 5067 / 10000"
    using H I J qb' qb(2) sn unfolding lv by simp_all
  have "149 < rat_of_nat x" "rat_of_nat x < 152"
    using S sb by simp_all
  then have "149 < x" "x < 152"
    using of_nat_less_iff[where ?'a = rat, of 149 x] of_nat_less_iff[where ?'a = rat, of x 152] by simp_all
  with y show ?thesis by auto
qed

lemma ring_values:
  "planePixel 0 300 150 150 61 = (203, 98, 98)"
  "Math_round (fl (fst (rgbToHsl 203 98 98) * 360)) = 0"
  "fl 61 = 61"
  by code_simp+

lemma search_gray_finite:
  assumes gray: "r = g" "g = b"
    and ex: "x0 < width st" "y0 < height st" "isGrayColor (pixelAt (canvas st) (width st) x0 y0)"
      "dist64 (pixelAt (canvas st) (width st) x0 y0) (r, g, b) \<noteq> None"
  shows "isGrayColor (getColorAt st (loupe_x (syncLoupeToColor r g b st)) (loupe_y (syncLoupeToColor r g b st)))"
proof -
  obtain bx "by" bd where res: "scanRows (canvas st) (width st) (height st) r g b 0 (0, 0, None) = (bx, by, bd)"
    by (cases "scanRows (canvas st) (width st) (height st) r g b 0 (0, 0, None)")
  have inv: "bestSoFar (canvas st) (width st) (r, g, b) 0 (height st) (bx, by, bd)"
    using scanRows_start[of "canvas st" "width st" r g b "height st"] res by simp
  have sc: "scanned (width st) 0 (height st) x0 y0"
    using ex by (simp add: scanned_def)
  have se: "searched (r, g, b) (pixelAt (canvas st) (width st) x0 y0)"
    using ex(3) by (simp add: searched_def)
  from inv sc se ex(4) obtain d where "bd = Some d"
    by (cases bd) (auto simp: bestSoFar_None)
  with inv have "scanned (width st) 0 (height st) bx by" "searched (r, g, b) (pixelAt (canvas st) (width st) bx by)"
    by (simp_all add: bestSoFar_Some)
  then have "bx < width st" "by < height st" "isGrayColor (pixelAt (canvas st) (width st) bx by)"
    using gray by (simp_all add: scanned_def searched_def)
  with syncLoupeToColor_loupe[OF res] show ?thesis by (simp add: getColorAt_pixelAt)
qed

lemma search_skips_repeated_colour:
  assumes first: "x1 < w" "y1 < h" "rowMajorBefore (x1, y1) (x0, y0)"
    and same: "pixelAt data w x1 y1 = pixelAt data w x0 y0"
    and res: "scanRows data w h r g b 0 (0, 0, None) = (bx, by, bd)"
  shows "(bx, by) \<noteq> (x0, y0)"
proof
  assume eq: "(bx, by) = (x0, y0)"
  have inv: "bestSoFar data w (r, g, b) 0 h (bx, by, bd)"
    using scanRows_start[of data w r g b h] res by simp
  show False
  proof (cases bd)
    case None
    with inv eq have "x0 = 0" "y0 = 0" by (simp_all add: bestSoFar_None)
    with first(3) show False by (simp add: rowMajorBefore_def)
  next
    case (Some d)
    have sc: "scanned w 0 h x1 y1" using first by (simp add: scanned_def)
    from inv Some eq have "searched (r, g, b) (pixelAt data w x0 y0)"
      and d: "dist64 (pixelAt data w x0 y0) (r, g, b) = Some d"
      and mn: "\<And>x y. scanned w 0 h x y \<Longrightarrow> searched (r, g, b) (pixelAt data w x y) \<Longrightarrow>
               rowMajorBefore (x, y) (x0, y0) \<Longrightarrow> lessThanBest (Some d) (dist64 (pixelAt data w x y) (r, g, b))"
      by (auto simp: bestSoFar_Some)
    with mn[OF sc _ first(3)] same show False by simp
  qed
qed

lemma commit_misses_pixel_under_ring:
  assumes ctx: "paintsInside (ctx_stroke st)" "leavesOutside (ctx_stroke st)"
    and size: "1 < width st" "1 < height st"
    and pix: "x0 < width st" "y0 < height st"
    and ring: "insideRing (loupe_x st) (loupe_y st) 14 x0 y0" "outsideRing (loupe_x st) (loupe_y st) 14 0 0"
  shows "(loupe_x (committed r g b st), loupe_y (committed r g b st)) \<noteq> (of_nat x0, of_nat y0)"
proof -
  let ?st = "renderCanvasWithHue (hue (syncHueWithRgb r g b st)) (syncHueWithRgb r g b (updateColorFields r g b st))"
  have c: "committed r g b st = syncLoupeToColor r g b ?st"
    by (simp add: committed_def Let_def syncHueWithRgb_hue)
  obtain bx "by" bd where res: "scanRows (canvas ?st) (width ?st) (height ?st) r g b 0 (0, 0, None) = (bx, by, bd)"
    by (cases "scanRows (canvas ?st) (width ?st) (height ?st) r g b 0 (0, 0, None)")
  have white: "pixelAt (canvas ?st) (width st) x0 y0 = (255, 255, 255)"
    using ctx(1) pix ring(1) unfolding canvas_rendered paintsInside_def by simp
  have "pixelAt (canvas ?st) (width st) 0 0
        = planePixel (hue (syncHueWithRgb r g b st)) (width st) (height st) 0 0"
    using pixelAt_rendered[of "syncHueWithRgb r g b (updateColorFields r g b st)" 0 0] ctx(2) size ring(2)
    by simp
  also have "\<dots> = (255, 255, 255)"
    using size by (simp add: planePixel_top_left)
  finally have same: "pixelAt (canvas ?st) (width st) 0 0 = pixelAt (canvas ?st) (width st) x0 y0"
    using white by simp
  have "(x0, y0) \<noteq> (0, 0)"
  proof
    assume "(x0, y0) = (0, 0)"
    with ring centre_between[where cx = "loupe_x st" and cy = "loupe_y st" and x = 0 and y = 0]
    show False unfolding insideRing_def outsideRing_def by simp
  qed
  then have before: "rowMajorBefore (0, 0) (x0, y0)"
    by (auto simp: rowMajorBefore_def)
  from search_skips_repeated_colour[OF _ _ before, of "width st" "height st" "canvas ?st" r g b bx "by" bd]
       same res size
  have "(bx, by) \<noteq> (x0, y0)" by simp
  with syncLoupeToColor_loupe[OF res] show ?thesis unfolding c by auto
qed

lemma search_exact_on_canvas:
  assumes "x0 < width st" "y0 < height st" "getColorAt st (of_nat x0) (of_nat y0) = (r, g, b)"
  shows "\<exists>bx by. bx < width st \<and> by < height st
           \<and> loupe_x (syncLoupeToColor r g b st) = of_nat bx \<and> loupe_y (syncLoupeToColor r g b st) = of_nat by
           \<and> getColorAt st (of_nat bx) (of_nat by) = (r, g, b)
           \<and> (\<forall>x y. x < width st \<and> y < height st \<and> rowMajorBefore (x, y) (bx, by)
                  \<longrightarrow> getColorAt st (of_nat x) (of_nat y) \<noteq> (r, g, b))"
proof -
  obtain bx "by" bd where res: "scanRows (canvas st) (width st) (height st) r g b 0 (0, 0, None) = (bx, by, bd)"
    by (cases "scanRows (canvas st) (width st) (height st) r g b 0 (0, 0, None)")
  have hit: "pixelAt (canvas st) (width st) x0 y0 = (r, g, b)"
    using assms by (simp add: getColorAt_pixelAt)
  from search_exact[OF assms(1,2) hit res]
  have b: "bx < width st" "by < height st" "pixelAt (canvas st) (width st) bx by = (r, g, b)"
    and first: "\<And>x y. x < width st \<Longrightarrow> rowMajorBefore (x, y) (bx, by)
                  \<Longrightarrow> pixelAt (canvas st) (width st) x y \<noteq> (r, g, b)"
    by simp_all
  have "getColorAt st (of_nat x) (of_nat y) \<noteq> (r, g, b)"
    if "x < width st" "y < height st" "rowMajorBefore (x, y) (bx, by)" for x y
    using first[OF that(1,3)] that by (simp add: getColorAt_pixelAt)
  with b syncLoupeToColor_loupe[OF res] show ?thesis
    by (intro exI[of _ bx] exI[of _ "by"]) (simp add: getColorAt_pixelAt)
qed

lemma getColorAt_fire [simp]: "getColorAt (fireColorChange c st) x y = getColorAt st x y"
  by (simp add: getColorAt_def Let_def)

lemma committed_sample:
  assumes "leavesOutside (ctx_stroke st)" "0 < width st" "0 < height st"
  obtains bx "by" where "bx < width st" "by < height st"
    "loupe_x (committed r g b st) = of_nat bx" "loupe_y (committed r g b st) = of_nat by"
    "getColorAt (committed r g b st) (of_nat bx) (of_nat by)
       = planePixel (hue (syncHueWithRgb r g b st)) (width st) (height st) bx by"
proof -
  let ?st = "renderCanvasWithHue (hue (syncHueWithRgb r g b st)) (syncHueWithRgb r g b (updateColorFields r g b st))"
  have c: "committed r g b st = syncLoupeToColor r g b ?st"
    by (simp add: committed_def Let_def syncHueWithRgb_hue)
  obtain bx "by" bd where res: "scanRows (canvas ?st) (width ?st) (height ?st) r g b 0 (0, 0, None) = (bx, by, bd)"
    by (cases "scanRows (canvas ?st) (width ?st) (height ?st) r g b 0 (0, 0, None)")
  from scan_in_bounds[OF _ _ res] assms have b: "bx < width st" "by < height st" by simp_all
  have s: "syncLoupeToColor r g b ?st
           = renderCanvasWithHue (hue ?st) (?st\<lparr>loupe_x := of_nat bx, loupe_y := of_nat by\<rparr>)"
    using res by (simp add: syncLoupeToColor_def)
  have "getColorAt (committed r g b st) (of_nat bx) (of_nat by)
        = planePixel (hue (syncHueWithRgb r g b st)) (width st) (height st) bx by"
    unfolding c s
    using getColorAt_rendered[of "?st\<lparr>loupe_x := of_nat bx, loupe_y := of_nat by\<rparr>"
            "of_nat bx" "of_nat by" "hue ?st"] assms(1) b
    by (simp add: syncHueWithRgb_hue)
  with b syncLoupeToColor_loupe[OF res] that show ?thesis unfolding c by blast
qed

section \<open>The claims\<close>

text \<open>
  Claim C1, as the code has it. The hue rule (the hue is \<open>round(rgbToHsl(r, g, b).h * 360)\<close>
  when \<open>max - min \<ge> 10\<close> for the final canonical colour, and the hue before the operation
  otherwise) holds after a press on the plane, after a commit of three integers, after a
  commit of a \<open>#\<close> with 6 hex digits, and after the initialisation. A drag on the plane
  never changes the hue, and a press or a drag on the hue bar sets the hue to
  \<open>round(x / barWidth * 360)\<close> for the clamped coordinate, whatever colour is sampled.
\<close>

theorem hue_after_each_edit:
  "(0 < width st \<and> 0 < height st
      \<longrightarrow> (\<exists>c. canonical (onMouseDown e st) = Some c \<and> hueRule (hue st) c (hue (onMouseDown e st))))
   \<and> (rgbInputs st = (Some r, Some g, Some b)
      \<longrightarrow> canonical (handleRgbInput st) = Some (r, g, b)
          \<and> hueRule (hue st) (r, g, b) (hue (handleRgbInput st)))
   \<and> (validHashHex6 (hexInput st)
      \<longrightarrow> (\<exists>c. hexToRgb (hexInput st) = Some c \<and> canonical (handleHexInput st) = Some c
               \<and> hueRule (hue st) c (hue (handleHexInput st))))
   \<and> (\<exists>c. canonical (connectedCallback st) = Some c \<and> hueRule (hue st) c (hue (connectedCallback st)))
   \<and> hue (onMouseMove e st) = hue st
   \<and> hue (onHueMouseDown e st) = hueFromBar e (width st)
   \<and> (draggingHue st \<longrightarrow> hue (onHueMouseMove e st) = hueFromBar e (width st))"
proof (intro conjI impI)
  assume "0 < width st \<and> 0 < height st"
  then obtain r' g' b' where eq: "onMouseDown e st =
       fireColorChange (r', g', b')
         (syncHueWithRgb r' g' b' (updateColorFields r' g' b' (sampled e (st\<lparr>isMouseDown := True\<rparr>))))"
    using onMouseDown_cases[of st e] by blast
  show "\<exists>c. canonical (onMouseDown e st) = Some c \<and> hueRule (hue st) c (hue (onMouseDown e st))"
    unfolding eq by (intro exI[of _ "(r', g', b')"]) (simp add: canonical_def syncHueWithRgb_hue)
next
  assume "rgbInputs st = (Some r, Some g, Some b)"
  note eq = handleRgbInput_accepted[OF this]
  show "canonical (handleRgbInput st) = Some (r, g, b)"
    unfolding eq by (simp add: canonical_def)
  show "hueRule (hue st) (r, g, b) (hue (handleRgbInput st))"
    unfolding eq by (simp add: syncHueWithRgb_hue)
next
  assume "validHashHex6 (hexInput st)"
  then have "handleHexInput_test (hexInput st)" by (simp add: handleHexInput_test_valid)
  from handleHexInput_accepted[OF this] obtain r' g' b'
    where dec: "hexToRgb (hexInput st) = Some (r', g', b')"
      and eq: "handleHexInput st = fireColorChange (r', g', b') (committed r' g' b' st)" by blast
  show "\<exists>c. hexToRgb (hexInput st) = Some c \<and> canonical (handleHexInput st) = Some c
               \<and> hueRule (hue st) c (hue (handleHexInput st))"
    unfolding eq using dec
    by (intro exI[of _ "(r', g', b')"]) (simp add: canonical_def syncHueWithRgb_hue)
next
  show "\<exists>c. canonical (connectedCallback st) = Some c \<and> hueRule (hue st) c (hue (connectedCallback st))"
    by (rule connectedCallback_hueRule)
next
  show "hue (onMouseMove e st) = hue st" by (rule onMouseMove_hue)
next
  obtain r' g' b' where eq: "onHueMouseDown e st =
       fireColorChange (r', g', b') (updateColorFields r' g' b' (hueDragged e (st\<lparr>draggingHue := True\<rparr>)))"
    by (rule onHueMouseDown_cases)
  show "hue (onHueMouseDown e st) = hueFromBar e (width st)"
    unfolding eq by simp
next
  assume "draggingHue st"
  then obtain r' g' b' where eq: "onHueMouseMove e st = fireColorChange (r', g', b') (updateColorFields r' g' b' (hueDragged e st))"
    using onHueMouseMove_cases[of st e] by blast
  show "hue (onHueMouseMove e st) = hueFromBar e (width st)"
    unfolding eq by simp
qed

theorem hue_after_each_edit_witness:
  "0 < width editingComponent \<and> 0 < height editingComponent
   \<and> rgbInputs editingComponent = (Some 1, Some 2, Some 3)
   \<and> validHashHex6 (hexInput editingComponent) \<and> draggingHue editingComponent
   \<and> (\<exists>c. canonical (onMouseDown (pointerAt 10 20) editingComponent) = Some c
          \<and> hueRule (hue editingComponent) c (hue (onMouseDown (pointerAt 10 20) editingComponent)))
   \<and> canonical (handleRgbInput editingComponent) = Some (1, 2, 3)
   \<and> hueRule (hue editingComponent) (1, 2, 3) (hue (handleRgbInput editingComponent))
   \<and> hue (handleRgbInput editingComponent) = hue editingComponent
   \<and> (\<exists>c. hexToRgb (hexInput editingComponent) = Some c
          \<and> canonical (handleHexInput editingComponent) = Some c
          \<and> hueRule (hue editingComponent) c (hue (handleHexInput editingComponent)))
   \<and> (\<exists>c. canonical (connectedCallback editingComponent) = Some c
          \<and> hueRule (hue editingComponent) c (hue (connectedCallback editingComponent)))
   \<and> hue (onMouseMove (pointerAt 10 20) editingComponent) = hue editingComponent
   \<and> hue (onHueMouseDown (pointerAt 10 20) editingComponent) = hueFromBar (pointerAt 10 20) (width editingComponent)
   \<and> hue (onHueMouseMove (pointerAt 10 20) editingComponent) = hueFromBar (pointerAt 10 20) (width editingComponent)"
  using hue_after_each_edit[of editingComponent "pointerAt 10 20" 1 2 3] validHashHex6_examples(1)
  by (simp add: editingComponent_fields)

text \<open>
  Claim C1 as stated fails on both kinds of drag. A press on the hue bar at x = 150, with
  the loupe on the white corner of the plane, moves the hue from 0 to 180 although the
  colour is gray. A drag on the plane to (119, 7), with the hue at 37, samples
  (248, 244, 238), for which \<open>max - min = 10\<close> and the hue of the rule is 36, and leaves the
  hue at 37.
\<close>

theorem hue_rule_broken_by_drags:
  "canonical (onHueMouseDown (pointerAt 150 0) releasedCorner) = Some (255, 255, 255)
   \<and> hue releasedCorner = 0
   \<and> hue (onHueMouseDown (pointerAt 150 0) releasedCorner) = 180
   \<and> \<not> hueRule (hue releasedCorner) (255, 255, 255) (hue (onHueMouseDown (pointerAt 150 0) releasedCorner))
   \<and> isMouseDown pressedCornerHue37
   \<and> canonical (onMouseMove (pointerAt 119 7) pressedCornerHue37) = Some (248, 244, 238)
   \<and> hue pressedCornerHue37 = 37
   \<and> hue (onMouseMove (pointerAt 119 7) pressedCornerHue37) = 37
   \<and> \<not> hueRule (hue pressedCornerHue37) (248, 244, 238) (hue (onMouseMove (pointerAt 119 7) pressedCornerHue37))"
proof -
  note bar = hue_drag_at_corner[OF releasedCorner_fields(1,2,4,5) example_leavesOutside(2), of "pointerAt 150 0"]
  have a: "canonical (onHueMouseDown (pointerAt 150 0) releasedCorner) = Some (255, 255, 255)"
    "hue (onHueMouseDown (pointerAt 150 0) releasedCorner) = 180"
    unfolding bar by (simp_all add: canonical_def releasedCorner_fields hueFromBar_values)
  have cl: "clampedX (pointerAt 119 7) pressedCornerHue37 = 119" "clampedY (pointerAt 119 7) pressedCornerHue37 = 7"
    by (simp_all add: clamped_pointerAt pressedCornerHue37_fields fl_values)
  have "planePixel (hue pressedCornerHue37) (width pressedCornerHue37) (height pressedCornerHue37)
          (nat \<lfloor>clampedX (pointerAt 119 7) pressedCornerHue37\<rfloor>)
          (nat \<lfloor>clampedY (pointerAt 119 7) pressedCornerHue37\<rfloor>) = (248, 244, 238)"
    by (simp add: cl pressedCornerHue37_fields drag_values)
  from onMouseMove_eq[OF example_leavesOutside(4) pressedCornerHue37_fields(4) _ _ this]
  have mv: "onMouseMove (pointerAt 119 7) pressedCornerHue37 =
     fireColorChange (248, 244, 238) (updateColorFields 248 244 238 (sampled (pointerAt 119 7) pressedCornerHue37))"
    by (simp add: pressedCornerHue37_fields)
  have b: "canonical (onMouseMove (pointerAt 119 7) pressedCornerHue37) = Some (248, 244, 238)"
    "hue (onMouseMove (pointerAt 119 7) pressedCornerHue37) = 37"
    unfolding mv by (simp_all add: canonical_def pressedCornerHue37_fields)
  show ?thesis
    using a b releasedCorner_fields(3) pressedCornerHue37_fields(3,4)
    by (simp add: drag_values)
qed

text \<open>
  Claim C2. For every valid 6-digit hex string \<open>s\<close> (an optional \<open>#\<close>, then exactly 6 hex
  digits in any letter case), \<open>rgbToHex\<close> applied to the triple that \<open>hexToRgb s\<close> returns
  is the lowercase form of \<open>s\<close> with a \<open>#\<close> in front.
\<close>

theorem hex_roundtrip:
  assumes "validHex6 s"
  shows "map_option (\<lambda>(r, g, b). rgbToHex r g b) (hexToRgb s) = Some (normalizeHex s)"
proof -
  from hexToRgb_valid[OF assms] obtain r g b
    where decoded: "hexToRgb s = Some (r, g, b)" and encoded: "rgbToHex r g b = normalizeHex s"
    by blast
  from decoded have "map_option (\<lambda>(r, g, b). rgbToHex r g b) (hexToRgb s) = Some (rgbToHex r g b)"
    by simp
  with encoded show ?thesis by simp
qed

theorem hex_roundtrip_witness:
  "validHex6 ''#FFaa0C''
   \<and> map_option (\<lambda>(r, g, b). rgbToHex r g b) (hexToRgb ''#FFaa0C'') = Some ''#ffaa0c''
   \<and> validHex6 ''00fF7b''
   \<and> map_option (\<lambda>(r, g, b). rgbToHex r g b) (hexToRgb ''00fF7b'') = Some ''#00ff7b''"
proof -
  have n: "normalizeHex ''#FFaa0C'' = ''#ffaa0c''" "normalizeHex ''00fF7b'' = ''#00ff7b''"
    by (simp_all add: normalizeHex_def toLowerCase_def)
  from hex_roundtrip[OF validHex6_examples(1)] hex_roundtrip[OF validHex6_examples(2)] n validHex6_examples
  show ?thesis by simp
qed

text \<open>
  Claim C3. A malformed commit is ignored as a whole. When one of the three number inputs
  does not parse (NaN), \<open>handleRgbInput\<close> returns the state it was given; when the hex input
  is not an optional \<open>#\<close> followed by exactly 6 hex digits, so does \<open>handleHexInput\<close>. The
  state holds the canonical colour, the hue, the loupe position and the trace of emitted
  notifications, so none of them changes and nothing is emitted.
\<close>

theorem malformed_commit_ignored:
  "(fst (rgbInputs st) = None \<or> fst (snd (rgbInputs st)) = None \<or> snd (snd (rgbInputs st)) = None
      \<longrightarrow> handleRgbInput st = st)
   \<and> (\<not> validHex6 (hexInput st) \<longrightarrow> handleHexInput st = st)"
proof (intro conjI impI)
  assume "fst (rgbInputs st) = None \<or> fst (snd (rgbInputs st)) = None \<or> snd (snd (rgbInputs st)) = None"
  then show "handleRgbInput st = st" by (rule handleRgbInput_rejected)
next
  assume "\<not> validHex6 (hexInput st)"
  then have "\<not> handleHexInput_test (hexInput st)"
    using validHashHex6_validHex6 by (auto simp: handleHexInput_test_valid)
  then show "handleHexInput st = st" by (rule handleHexInput_rejected)
qed

theorem malformed_commit_ignored_witness:
  "snd (snd (rgbInputs (exampleComponent\<lparr>rgbInputs := (Some 300, Some (- 1), None)\<rparr>))) = None
   \<and> handleRgbInput (exampleComponent\<lparr>rgbInputs := (Some 300, Some (- 1), None)\<rparr>)
       = exampleComponent\<lparr>rgbInputs := (Some 300, Some (- 1), None)\<rparr>
   \<and> \<not> validHex6 (hexInput (exampleComponent\<lparr>hexInput := ''ZZZZZZ''\<rparr>))
   \<and> handleHexInput (exampleComponent\<lparr>hexInput := ''ZZZZZZ''\<rparr>)
       = exampleComponent\<lparr>hexInput := ''ZZZZZZ''\<rparr>"
  using malformed_commit_ignored[of "exampleComponent\<lparr>rgbInputs := (Some 300, Some (- 1), None)\<rparr>"]
        malformed_commit_ignored[of "exampleComponent\<lparr>hexInput := ''ZZZZZZ''\<rparr>"]
        not_validHex6_ZZZZZZ
  by simp



text \<open>
  Claim C5. For a gray target (\<open>r = g = b\<close>) the search never ends on a pixel that the
  canvas shows in a colour that is not gray, however near to the target such a pixel is.
  The search skips every pixel that is not gray, so it ends on a gray pixel as soon as one
  gray pixel has a finite distance, as every pixel has for a target below \<open>2 ^ 400\<close> (lemma
  \<open>dist64_finite\<close>). Otherwise it stays on the first pixel of the canvas: \<open>Infinity < Infinity\<close>
  is false (lemma \<open>search_overflow_stays\<close>, for a target beyond \<open>2 ^ 600\<close>). The first pixel
  is gray on every canvas that \<open>renderCanvasWithHue\<close> has drawn: the plane has saturation 0
  there, and the white ring, where it covers the pixel, leaves a gray pixel gray.
\<close>

theorem gray_target_never_on_colour:
  assumes "r = g" and "g = b"
  shows "(0 < width st \<and> 0 < height st \<and> isGrayColor (getColorAt st 0 0)
            \<longrightarrow> isGrayColor (getColorAt st (loupe_x (syncLoupeToColor r g b st))
                                            (loupe_y (syncLoupeToColor r g b st))))
       \<and> (x0 < width st \<and> y0 < height st \<and> isGrayColor (getColorAt st (of_nat x0) (of_nat y0))
            \<and> dist64 (getColorAt st (of_nat x0) (of_nat y0)) (r, g, b) \<noteq> None
            \<longrightarrow> isGrayColor (getColorAt st (loupe_x (syncLoupeToColor r g b st))
                                            (loupe_y (syncLoupeToColor r g b st))))
       \<and> (keepsGray (ctx_stroke st) \<and> 0 < width st \<and> 0 < height st
            \<longrightarrow> isGrayColor (getColorAt (renderCanvasWithHue hu st)
                                (loupe_x (syncLoupeToColor r g b (renderCanvasWithHue hu st)))
                                (loupe_y (syncLoupeToColor r g b (renderCanvasWithHue hu st)))))"
proof (intro conjI impI)
  assume a: "0 < width st \<and> 0 < height st \<and> isGrayColor (getColorAt st 0 0)"
  then have "isGrayColor (pixelAt (canvas st) (width st) 0 0)"
    using getColorAt_pixelAt[of 0 st 0] by simp
  with a show "isGrayColor (getColorAt st (loupe_x (syncLoupeToColor r g b st)) (loupe_y (syncLoupeToColor r g b st)))"
    using search_gray[OF assms, of st] by blast
next
  assume a: "x0 < width st \<and> y0 < height st \<and> isGrayColor (getColorAt st (of_nat x0) (of_nat y0))
            \<and> dist64 (getColorAt st (of_nat x0) (of_nat y0)) (r, g, b) \<noteq> None"
  then have "isGrayColor (pixelAt (canvas st) (width st) x0 y0)"
      "dist64 (pixelAt (canvas st) (width st) x0 y0) (r, g, b) \<noteq> None"
    using getColorAt_pixelAt[of x0 st y0] by auto
  with a show "isGrayColor (getColorAt st (loupe_x (syncLoupeToColor r g b st)) (loupe_y (syncLoupeToColor r g b st)))"
    using search_gray_finite[OF assms, of x0 st y0] by blast
next
  assume pos: "keepsGray (ctx_stroke st) \<and> 0 < width st \<and> 0 < height st"
  let ?st = "renderCanvasWithHue hu st"
  have "isGrayColor (pixelAt (canvas ?st) (width ?st) 0 0)"
    using rendered_origin_gray[of st hu] pos by simp
  from search_gray[OF assms _ _ this] pos
  show "isGrayColor (getColorAt ?st (loupe_x (syncLoupeToColor r g b ?st)) (loupe_y (syncLoupeToColor r g b ?st)))"
    by simp
qed

theorem gray_target_never_on_colour_witness:
  "(120::int) = 120 \<and> (0::nat) < width exampleGrayPlane \<and> (0::nat) < height exampleGrayPlane
   \<and> isGrayColor (getColorAt exampleGrayPlane 0 0)
   \<and> dist64 (getColorAt exampleGrayPlane 0 0) (120, 120, 120) = Some 1200
   \<and> \<not> isGrayColor (getColorAt exampleGrayPlane 1 0)
   \<and> squaredDistance (getColorAt exampleGrayPlane 1 0) (120, 120, 120)
       < squaredDistance (getColorAt exampleGrayPlane 0 0) (120, 120, 120)
   \<and> isGrayColor (getColorAt exampleGrayPlane (loupe_x (syncLoupeToColor 120 120 120 exampleGrayPlane))
                                               (loupe_y (syncLoupeToColor 120 120 120 exampleGrayPlane)))
   \<and> loupe_x (syncLoupeToColor 120 120 120 exampleGrayPlane) = 0
   \<and> keepsGray (ctx_stroke redComponent) \<and> 0 < width redComponent \<and> 0 < height redComponent
   \<and> isGrayColor (getColorAt (renderCanvasWithHue 200 redComponent)
        (loupe_x (syncLoupeToColor 120 120 120 (renderCanvasWithHue 200 redComponent)))
        (loupe_y (syncLoupeToColor 120 120 120 (renderCanvasWithHue 200 redComponent))))"
proof -
  have h1: "(0::nat) < width exampleGrayPlane \<and> (0::nat) < height exampleGrayPlane
            \<and> isGrayColor (getColorAt exampleGrayPlane 0 0)"
    by code_simp
  have h2: "dist64 (getColorAt exampleGrayPlane 0 0) (120, 120, 120) = Some 1200"
    by code_simp
  have far: "\<not> isGrayColor (getColorAt exampleGrayPlane 1 0)
     \<and> squaredDistance (getColorAt exampleGrayPlane 1 0) (120, 120, 120)
       < squaredDistance (getColorAt exampleGrayPlane 0 0) (120, 120, 120)
     \<and> loupe_x (syncLoupeToColor 120 120 120 exampleGrayPlane) = 0"
    by code_simp
  have h3: "keepsGray (ctx_stroke redComponent) \<and> 0 < width redComponent \<and> 0 < height redComponent"
    by (simp add: example_contexts exampleStroke_keepsGray redComponent_fields)
  from gray_target_never_on_colour[of 120 120 120 exampleGrayPlane 0 0 200]
       gray_target_never_on_colour[of 120 120 120 redComponent 0 0 200] h1 h2 far h3
  show ?thesis by simp
qed

text \<open>
  Claim C6 fails in the component. The search reads the canvas after the ring of the loupe
  has been stroked over the plane, so a colour that the plane shows only under the ring is
  not found. On a component of the default size with the hue 0 and the loupe at (150, 75)
  the plane shows (203, 98, 98) at the pixel (150, 61) and at the next one, (151, 61), and
  nowhere else. Both pixels lie within the line of the ring around (150, 75). When
  (203, 98, 98) is typed and committed, the hue stays 0, the same plane is drawn with the
  ring over both pixels, and the search ends on another pixel: the colour under the loupe
  after the commit is not the colour committed. This holds with every context that paints
  white the pixels within the line and leaves alone the pixels that the line does not
  touch.
\<close>

theorem exact_target_under_ring_missed:
  assumes ctx: "paintsInside (ctx_stroke st)" "leavesOutside (ctx_stroke st)"
    and size: "width st = 300" "height st = 150"
    and state: "hue st = 0" "loupe_x st = 150" "loupe_y st = 75"
    and typed: "rgbInputs st = (Some 203, Some 98, Some 98)"
  shows "planePixel (hue st) (width st) (height st) 150 61 = (203, 98, 98)
       \<and> canonical (handleRgbInput st) = Some (203, 98, 98)
       \<and> hue (handleRgbInput st) = 0
       \<and> (loupe_x (handleRgbInput st), loupe_y (handleRgbInput st)) \<noteq> (150, 61)
       \<and> (loupe_x (handleRgbInput st), loupe_y (handleRgbInput st)) \<noteq> (151, 61)
       \<and> getColorAt (handleRgbInput st) (loupe_x (handleRgbInput st)) (loupe_y (handleRgbInput st))
           \<noteq> (203, 98, 98)"
proof -
  note f = size state
  note eq = handleRgbInput_accepted[OF typed]
  have hu: "hue (syncHueWithRgb 203 98 98 st) = 0"
    by (simp add: syncHueWithRgb_hue ring_values)
  have inside: "insideRing (loupe_x st) (loupe_y st) 14 150 61"
      "insideRing (loupe_x st) (loupe_y st) 14 151 61"
    and outside: "outsideRing (loupe_x st) (loupe_y st) 14 0 0"
    unfolding f by (simp_all add: insideRing_def outsideRing_def nearestSq_def farthestSq_def)
  have pos: "0 < width st" "0 < height st" by (simp_all add: f)
  obtain bx "by" where b': "bx < width st" "by < height st"
    and lp: "loupe_x (committed 203 98 98 st) = of_nat bx" "loupe_y (committed 203 98 98 st) = of_nat by"
    and smp': "getColorAt (committed 203 98 98 st) (of_nat bx) (of_nat by)
                 = planePixel (hue (syncHueWithRgb 203 98 98 st)) (width st) (height st) bx by"
    by (rule committed_sample[OF ctx(2) pos, of 203 98 98])
  from b' have b: "bx < 300" "by < 150" by (simp_all add: f)
  from smp' have smp: "getColorAt (committed 203 98 98 st) (of_nat bx) (of_nat by) = planePixel 0 300 150 bx by"
    by (simp add: f hu)
  from commit_misses_pixel_under_ring[OF ctx _ _ _ _ inside(1) outside, of 203 98 98]
  have n1: "(bx, by) \<noteq> (150, 61)"
    unfolding lp by (simp add: f)
  from commit_misses_pixel_under_ring[OF ctx _ _ _ _ inside(2) outside, of 203 98 98]
  have n2: "(bx, by) \<noteq> (151, 61)"
    unfolding lp by (simp add: f)
  from plane_shows_target_only_under_ring[OF b] n1 n2
  have "planePixel 0 300 150 bx by \<noteq> (203, 98, 98)" by auto
  with smp have away: "getColorAt (committed 203 98 98 st) (of_nat bx) (of_nat by) \<noteq> (203, 98, 98)"
    by simp
  have l1: "(loupe_x (handleRgbInput st), loupe_y (handleRgbInput st)) \<noteq> (150, 61)"
    and l2: "(loupe_x (handleRgbInput st), loupe_y (handleRgbInput st)) \<noteq> (151, 61)"
    unfolding eq using n1 n2
      of_nat_eq_iff[where ?'a = rat, of bx 150] of_nat_eq_iff[where ?'a = rat, of bx 151]
      of_nat_eq_iff[where ?'a = rat, of "by" 61]
    by (simp_all add: lp)
  have l3: "getColorAt (handleRgbInput st) (loupe_x (handleRgbInput st)) (loupe_y (handleRgbInput st))
          \<noteq> (203, 98, 98)"
    unfolding eq using away by (simp add: lp)
  have c: "canonical (handleRgbInput st) = Some (203, 98, 98)"
    "hue (handleRgbInput st) = 0"
    unfolding eq by (simp_all add: canonical_def hu)
  from f c l1 l2 l3 ring_values(1) show ?thesis by simp
qed

text \<open>
  The failing input: the component of the default size seeded with red, which a press at
  (150, 61) shows to have (203, 98, 98) there, with 203, 98 and 98 typed into its inputs.
\<close>

theorem exact_target_under_ring_missed_witness:
  "paintsInside (ctx_stroke typedComponent) \<and> leavesOutside (ctx_stroke typedComponent)
   \<and> width typedComponent = 300 \<and> height typedComponent = 150
   \<and> hue typedComponent = 0 \<and> loupe_x typedComponent = 150 \<and> loupe_y typedComponent = 75
   \<and> rgbInputs typedComponent = (Some 203, Some 98, Some 98)
   \<and> canonical (onMouseDown (pointerAt 150 61) redComponent) = Some (203, 98, 98)
   \<and> planePixel 0 300 150 150 61 = (203, 98, 98)
   \<and> canonical (handleRgbInput typedComponent) = Some (203, 98, 98)
   \<and> hue (handleRgbInput typedComponent) = 0
   \<and> (loupe_x (handleRgbInput typedComponent), loupe_y (handleRgbInput typedComponent)) \<noteq> (150, 61)
   \<and> (loupe_x (handleRgbInput typedComponent), loupe_y (handleRgbInput typedComponent)) \<noteq> (151, 61)
   \<and> getColorAt (handleRgbInput typedComponent)
         (loupe_x (handleRgbInput typedComponent)) (loupe_y (handleRgbInput typedComponent))
       \<noteq> (203, 98, 98)"
proof -
  have f: "width typedComponent = 300" "height typedComponent = 150" "hue typedComponent = 0"
    "loupe_x typedComponent = 150" "loupe_y typedComponent = 75"
    "rgbInputs typedComponent = (Some 203, Some 98, Some 98)"
    by (simp_all add: typedComponent_def redComponent_fields)
  have ctx: "paintsInside (ctx_stroke typedComponent)" "leavesOutside (ctx_stroke typedComponent)"
    by (simp_all add: typedComponent_def example_contexts exampleStroke_paintsInside
          exampleStroke_leavesOutside)
  have cl: "clampedX (pointerAt 150 61) redComponent = 150" "clampedY (pointerAt 150 61) redComponent = 61"
    by (simp_all add: clamped_pointerAt redComponent_fields fl_values ring_values)
  have "planePixel (hue redComponent) (width redComponent) (height redComponent)
          (nat \<lfloor>clampedX (pointerAt 150 61) redComponent\<rfloor>)
          (nat \<lfloor>clampedY (pointerAt 150 61) redComponent\<rfloor>) = (203, 98, 98)"
    by (simp add: cl redComponent_fields ring_values)
  from onMouseDown_eq[OF example_leavesOutside(1) _ _ this]
  have press: "canonical (onMouseDown (pointerAt 150 61) redComponent) = Some (203, 98, 98)"
    by (simp add: redComponent_fields canonical_def)
  from exact_target_under_ring_missed[OF ctx f] f ctx press show ?thesis by simp
qed

text \<open>
  Claim C7, as the code has it. \<open>hexToRgb\<close> decodes exactly the strings made of an optional
  \<open>#\<close> and 6 hex digits and returns null for every other string. It does not decide the
  hex commit: \<open>handleHexInput\<close> first applies a test of its own that requires the \<open>#\<close>. A
  commit of a \<open>#\<close> followed by 6 hex digits is accepted, with the colour that \<open>hexToRgb\<close>
  decodes; a commit of any other string, six hex digits without \<open>#\<close> included, is ignored.
\<close>

theorem hex_commit_gate:
  "(validHex6 s
      \<longrightarrow> (\<exists>r g b. hexToRgb s = Some (r, g, b) \<and> {r, g, b} \<subseteq> {0..255}
               \<and> rgbToHex r g b = normalizeHex s))
   \<and> (\<not> validHex6 s \<longrightarrow> hexToRgb s = None)
   \<and> (validHashHex6 (hexInput st)
        \<longrightarrow> (\<exists>c. hexToRgb (hexInput st) = Some c \<and> canonical (handleHexInput st) = Some c
                 \<and> notifiedOnce st (handleHexInput st) []))
   \<and> (\<not> validHashHex6 (hexInput st) \<longrightarrow> handleHexInput st = st)"
proof (intro conjI impI)
  assume "validHex6 s"
  from hexToRgb_valid[OF this]
  show "\<exists>r g b. hexToRgb s = Some (r, g, b) \<and> {r, g, b} \<subseteq> {0..255} \<and> rgbToHex r g b = normalizeHex s"
    by auto
next
  assume "\<not> validHex6 s"
  then show "hexToRgb s = None" by (simp add: hexToRgb_None_iff)
next
  assume "validHashHex6 (hexInput st)"
  then have "handleHexInput_test (hexInput st)" by (simp add: handleHexInput_test_valid)
  from handleHexInput_accepted[OF this] obtain r g b
    where dec: "hexToRgb (hexInput st) = Some (r, g, b)"
      and eq: "handleHexInput st = fireColorChange (r, g, b) (committed r g b st)" by blast
  have "notifiedOnce st (handleHexInput st) []"
    unfolding eq by (rule notifiedOnceI) simp_all
  moreover have "canonical (handleHexInput st) = Some (r, g, b)"
    unfolding eq by (simp add: canonical_def)
  ultimately show "\<exists>c. hexToRgb (hexInput st) = Some c \<and> canonical (handleHexInput st) = Some c
                 \<and> notifiedOnce st (handleHexInput st) []"
    using dec by blast
next
  assume "\<not> validHashHex6 (hexInput st)"
  then show "handleHexInput st = st"
    by (simp add: handleHexInput_rejected handleHexInput_test_valid)
qed

theorem hex_commit_gate_witness:
  "validHex6 ''#FFaa0C''
   \<and> (\<exists>r g b. hexToRgb ''#FFaa0C'' = Some (r, g, b) \<and> {r, g, b} \<subseteq> {0..255}
          \<and> rgbToHex r g b = normalizeHex ''#FFaa0C'')
   \<and> \<not> validHex6 ''ZZZZZZ'' \<and> hexToRgb ''ZZZZZZ'' = None
   \<and> validHashHex6 (hexInput (exampleComponent\<lparr>hexInput := ''#FFaa0C''\<rparr>))
   \<and> (\<exists>c. hexToRgb (hexInput (exampleComponent\<lparr>hexInput := ''#FFaa0C''\<rparr>)) = Some c
          \<and> canonical (handleHexInput (exampleComponent\<lparr>hexInput := ''#FFaa0C''\<rparr>)) = Some c
          \<and> notifiedOnce (exampleComponent\<lparr>hexInput := ''#FFaa0C''\<rparr>)
                (handleHexInput (exampleComponent\<lparr>hexInput := ''#FFaa0C''\<rparr>)) [])
   \<and> \<not> validHashHex6 (hexInput (exampleComponent\<lparr>hexInput := ''ff0000''\<rparr>))
   \<and> handleHexInput (exampleComponent\<lparr>hexInput := ''ff0000''\<rparr>) = exampleComponent\<lparr>hexInput := ''ff0000''\<rparr>"
  using hex_commit_gate[of "''#FFaa0C''" "exampleComponent\<lparr>hexInput := ''#FFaa0C''\<rparr>"]
        hex_commit_gate[of "''ZZZZZZ''" "exampleComponent\<lparr>hexInput := ''ff0000''\<rparr>"]
        validHex6_examples(1) not_validHex6_ZZZZZZ validHashHex6_examples
  by simp

text \<open>
  Claim C7 as stated fails: the string \<open>ff0000\<close> is six hex digits without the \<open>#\<close>,
  \<open>hexToRgb\<close> decodes it to (255, 0, 0), and the hex commit ignores it.
\<close>

theorem hex_without_hash_ignored:
  "validHex6 ''ff0000'' \<and> hexToRgb ''ff0000'' = Some (255, 0, 0)
   \<and> handleHexInput (exampleComponent\<lparr>hexInput := ''ff0000''\<rparr>) = exampleComponent\<lparr>hexInput := ''ff0000''\<rparr>"
proof -
  have "hexToRgb ''ff0000'' = Some (255, 0, 0)" by code_simp
  moreover have "handleHexInput (exampleComponent\<lparr>hexInput := ''ff0000''\<rparr>) = exampleComponent\<lparr>hexInput := ''ff0000''\<rparr>"
    by (simp add: handleHexInput_def handleHexInput_test_def)
  ultimately show ?thesis using validHex6_examples(3) by simp
qed

text \<open>
  Claim C8. A numeric commit of (255, 0, 0) sets the hue to 0, one of (0, 255, 0) sets it to
  120, and one of (0, 0, 255) sets it to 240, from whatever state it starts.
\<close>

theorem primary_hues:
  "hue (handleRgbInput (st\<lparr>rgbInputs := (Some 255, Some 0, Some 0)\<rparr>)) = 0
   \<and> hue (handleRgbInput (st\<lparr>rgbInputs := (Some 0, Some 255, Some 0)\<rparr>)) = 120
   \<and> hue (handleRgbInput (st\<lparr>rgbInputs := (Some 0, Some 0, Some 255)\<rparr>)) = 240"
proof -
  have commit: "hue (handleRgbInput (st\<lparr>rgbInputs := (Some r, Some g, Some b)\<rparr>))
        = (if 10 \<le> max r (max g b) - min r (min g b)
           then Math_round (fl (fst (rgbToHsl r g b) * 360)) else hue st)" for r g b
  proof -
    have "rgbInputs (st\<lparr>rgbInputs := (Some r, Some g, Some b)\<rparr>) = (Some r, Some g, Some b)"
      by simp
    from handleRgbInput_accepted[OF this] show ?thesis
      by (simp add: syncHueWithRgb_hue)
  qed
  have red: "hue (handleRgbInput (st\<lparr>rgbInputs := (Some 255, Some 0, Some 0)\<rparr>)) = 0"
    unfolding commit by (simp add: primary_hue_values)
  have green: "hue (handleRgbInput (st\<lparr>rgbInputs := (Some 0, Some 255, Some 0)\<rparr>)) = 120"
    unfolding commit by (simp add: primary_hue_values)
  have blue: "hue (handleRgbInput (st\<lparr>rgbInputs := (Some 0, Some 0, Some 255)\<rparr>)) = 240"
    unfolding commit by (simp add: primary_hue_values)
  from red green blue show ?thesis by simp
qed

theorem primary_hues_witness:
  "hue (handleRgbInput (exampleComponent\<lparr>rgbInputs := (Some 255, Some 0, Some 0)\<rparr>)) = 0
   \<and> hue (handleRgbInput (exampleComponent\<lparr>rgbInputs := (Some 0, Some 255, Some 0)\<rparr>)) = 120
   \<and> hue (handleRgbInput (exampleComponent\<lparr>rgbInputs := (Some 0, Some 0, Some 255)\<rparr>)) = 240"
  using primary_hues[of exampleComponent] by simp

text \<open>
  Claim C9 fails right after the initialisation of a component narrower than 151 pixels or
  lower than 76: the loupe starts at the constant (150, 75). With \<open>width = 100\<close> and
  \<open>height = 50\<close> the position after \<open>connectedCallback\<close> is outside the plane, and the colour
  sampled there is the transparent black of a pixel outside the canvas. The entry points
  that move the loupe keep it inside (lemma \<open>position_in_bounds_after_edit\<close>).
\<close>

theorem initial_position_out_of_bounds:
  "width narrowComponent = 100 \<and> height narrowComponent = 50
   \<and> loupe_x narrowComponent = 150 \<and> loupe_y narrowComponent = 75
   \<and> \<not> positionInBounds narrowComponent
   \<and> canonical narrowComponent = Some (0, 0, 0)"
proof -
  let ?c = "constructor exampleStroke (Some 100) (Some 50) None"
  have f: "width ?c = 100" "height ?c = 50" "loupe_x ?c = 150" "loupe_y ?c = 75" "selectedColor ?c = None"
    by (simp_all add: constructor_def)
  have "getColorAt (prepared ?c) (loupe_x ?c) (loupe_y ?c) = (0, 0, 0)"
    by (simp add: getColorAt_def f Math_floor_def)
  from connectedCallback_default[OF f(5) this] f show ?thesis
    by (simp add: narrowComponent_def positionInBounds_def canonical_def)
qed

text \<open>
  Claim C10. The numeric commit checks no range. Whenever the three inputs parse to
  integers the commit is accepted: the canonical colour becomes those integers, the hex
  input becomes \<open>rgbToHex\<close> of them, and one notification is emitted. When a channel lies
  outside 0..255 that hex string is not a \<open>#\<close> followed by exactly 6 hex digits.
\<close>

theorem rgb_commit_not_range_checked:
  assumes "rgbInputs st = (Some r, Some g, Some b)"
  shows "canonical (handleRgbInput st) = Some (r, g, b)
       \<and> hexInput (handleRgbInput st) = rgbToHex r g b
       \<and> notifiedOnce st (handleRgbInput st) []
       \<and> (r < 0 \<or> 255 < r \<or> g < 0 \<or> 255 < g \<or> b < 0 \<or> 255 < b
            \<longrightarrow> \<not> validHashHex6 (rgbToHex r g b))"
proof -
  note eq = handleRgbInput_accepted[OF assms]
  have "notifiedOnce st (handleRgbInput st) []"
    unfolding eq by (rule notifiedOnceI) simp_all
  then show ?thesis
    unfolding eq using rgbToHex_out_of_range[of r g b] by (simp add: canonical_def)
qed

theorem rgb_commit_not_range_checked_witness:
  "rgbInputs (exampleComponent\<lparr>rgbInputs := (Some 300, Some (- 1), Some 7)\<rparr>) = (Some 300, Some (- 1), Some 7)
   \<and> canonical (handleRgbInput (exampleComponent\<lparr>rgbInputs := (Some 300, Some (- 1), Some 7)\<rparr>))
       = Some (300, - 1, 7)
   \<and> hexInput (handleRgbInput (exampleComponent\<lparr>rgbInputs := (Some 300, Some (- 1), Some 7)\<rparr>))
       = ''#12c-107''
   \<and> padStart2 (toString16 300) = ''12c''
   \<and> notifiedOnce (exampleComponent\<lparr>rgbInputs := (Some 300, Some (- 1), Some 7)\<rparr>)
        (handleRgbInput (exampleComponent\<lparr>rgbInputs := (Some 300, Some (- 1), Some 7)\<rparr>)) []
   \<and> \<not> validHashHex6 (rgbToHex 300 (- 1) 7)"
proof -
  have hex: "rgbToHex 300 (- 1) 7 = ''#12c-107''" "padStart2 (toString16 300) = ''12c''"
    by code_simp+
  from rgb_commit_not_range_checked[of "exampleComponent\<lparr>rgbInputs := (Some 300, Some (- 1), Some 7)\<rparr>" 300 "- 1" 7]
       hex
  show ?thesis by simp
qed

end
